theory Spec2Isabelle
  imports Complex_Main "HOL-Library.Sublist"
begin

section \<open>The transcription GUI of \<open>transcribe.py\<close>\<close>

text \<open>
  The program is a Tk window (class \<open>WhisperGUI\<close>) whose button starts one worker thread
  running \<open>_do_transcription\<close>, while a 200 ms timer callback \<open>_progress_tick\<close> simulates
  progress. The embedding keeps the attributes of the class in a record, turns every method
  into a function on that record, and makes the two threads explicit: the worker advances
  from one blocking call to the next, and a schedule of events says in which order the
  user's edits, the button, the Tk callbacks and the worker's segments happen.

  Python floats are modelled as \<^typ>\<open>real\<close> (no NaN, no infinity, no rounding), Python's
  unbounded \<open>int\<close> as \<^typ>\<open>int\<close>, and \<open>str\<close> as \<^typ>\<open>string\<close>.
\<close>

subsection \<open>Exceptions, strings and numbers\<close>

text \<open>
  An instance of \<open>Exception\<close> that some call raised; \<open>str_of e\<close> is Python's \<open>str(e)\<close>.
  These are the exceptions the collaborators raise and the clause \<open>except Exception\<close>
  catches; \<open>KeyboardInterrupt\<close> and \<open>SystemExit\<close>, which are not instances of
  \<open>Exception\<close>, are not modelled.
\<close>

datatype exn = Exception (str_of: string)

text \<open>\<open>str.strip()\<close>: whitespace is removed at both ends. The whitespace characters are
  those of \<open>str.isspace\<close> among the code points below 256.\<close>

definition isspace :: "char \<Rightarrow> bool" where
  "isspace c =
     (let n = (of_char c :: nat)
      in (9 \<le> n \<and> n \<le> 13) \<or> (28 \<le> n \<and> n \<le> 32) \<or> n = 133 \<or> n = 160)"

definition strip :: "string \<Rightarrow> string" where
  "strip s = rev (dropWhile isspace (rev (dropWhile isspace s)))"

text \<open>\<open>int(x)\<close> on a float truncates towards zero.\<close>

definition int_of_float :: "real \<Rightarrow> int" where
  "int_of_float x = (if 0 \<le> x then \<lfloor>x\<rfloor> else \<lceil>x\<rceil>)"

text \<open>The decimal text of an integer, as an f-string prints it.\<close>

fun digits10 :: "nat \<Rightarrow> string" where
  "digits10 n =
     (if n < 10 then [''0123456789'' ! n]
      else digits10 (n div 10) @ [''0123456789'' ! (n mod 10)])"

declare digits10.simps [simp del]

definition str_int :: "int \<Rightarrow> string" where
  "str_int i = (if i < 0 then CHR ''-'' # digits10 (nat (- i)) else digits10 (nat i))"

subsection \<open>The external collaborators\<close>

text \<open>
  What the operating system, ffmpeg, torch and whisper answer is a parameter of every
  operation. A call that can raise answers \<open>Inl e\<close>.
\<close>

record env =
  path_exists :: "string \<Rightarrow> bool"
    \<comment> \<open>\<open>os.path.exists\<close>\<close>
  ffmpeg_run :: "exn + unit"
    \<comment> \<open>\<open>subprocess.run(["ffmpeg", "-version"], check=True)\<close>\<close>
  ffprobe_run :: "string \<Rightarrow> exn + real"
    \<comment> \<open>\<open>float(subprocess.run(["ffprobe", ..., path], check=True).stdout.strip())\<close>\<close>
  cuda_is_available :: "exn + bool"
    \<comment> \<open>\<open>torch.cuda.is_available()\<close>\<close>
  set_num_threads :: "exn + unit"
    \<comment> \<open>\<open>torch.set_num_threads(12)\<close>\<close>
  load_model :: "string \<Rightarrow> string \<Rightarrow> exn + unit"
    \<comment> \<open>\<open>whisper.load_model(model_name, device=device)\<close>\<close>
  transcribe :: "string \<Rightarrow> string option \<Rightarrow> bool \<Rightarrow> exn + string"
    \<comment> \<open>\<open>model.transcribe(input_path, language=language, ..., fp16=...)["text"]\<close>\<close>
  write_text :: "string \<Rightarrow> string \<Rightarrow> exn + unit"
    \<comment> \<open>\<open>with open(output_path, "w", encoding="utf-8") as f: f.write(text)\<close>\<close>

definition ffmpeg_available :: "env \<Rightarrow> bool" where
  "ffmpeg_available e = (case ffmpeg_run e of Inl _ \<Rightarrow> False | Inr _ \<Rightarrow> True)"

definition get_media_duration :: "env \<Rightarrow> string \<Rightarrow> real" where
  "get_media_duration e path = (case ffprobe_run e path of Inl _ \<Rightarrow> 0.0 | Inr d \<Rightarrow> d)"

subsection \<open>The window and its worker thread\<close>

text \<open>
  Where the worker thread stands: it has been started and has not yet called
  \<open>whisper.load_model\<close>; it is inside \<open>whisper.load_model\<close>; it is inside
  \<open>model.transcribe\<close>; \<open>_do_transcription\<close> has returned and the thread is dead.
\<close>

datatype pc = Entered | InLoadModel | InTranscribe | Returned

text \<open>The calls the worker makes to the engine and to the output file, with their arguments.\<close>

datatype call =
    LoadCall string string
  | TranscribeCall string "string option" bool
  | WriteCall string string

text \<open>
  The thread object: its position, the local variables of \<open>_do_transcription\<close> that outlive
  a blocking call, and three logs kept for the statements below: every message the thread
  passed to \<open>_set_status\<close>, every call it made, and the exception its \<open>except\<close> clause
  caught.
\<close>

record thread =
  pc :: pc
  device :: string
  model_name :: string
  input_path :: string
  language :: "string option"
  posted :: "string list"
  calls :: "call list"
  caught :: "exn option"

datatype dialog = ShowError string string | ShowInfo string string

text \<open>
  The attributes of \<open>WhisperGUI\<close>. \<open>after_updates\<close> holds the \<open>_update\<close> callbacks that
  \<open>self.after(0, _update)\<close> has queued and the main loop has not run yet, oldest first;
  \<open>after_ticks\<close> counts the queued \<open>self.after(200, self._progress_tick)\<close> callbacks;
  \<open>dialogs\<close> logs the message boxes shown; \<open>spawned\<close> counts the calls of \<open>Thread.start\<close>.
\<close>

record gui =
  input_var :: string
  model_var :: string
  lang_var :: string
  device_var :: string
  output_var :: string
  status_var :: string
  progress :: real
  estimated_seconds :: real
  elapsed_ms :: int
  worker_thread :: "thread option"
  after_updates :: "string list"
  after_ticks :: nat
  dialogs :: "dialog list"
  spawned :: nat

text \<open>\<open>__init__\<close> and \<open>_build_ui\<close>.\<close>

definition init :: gui where
  "init = \<lparr> input_var = '''', model_var = ''large'', lang_var = ''German'',
            device_var = ''cuda'', output_var = ''transcript_output.txt'',
            status_var = ''Ready.'', progress = 0, estimated_seconds = 0.0,
            elapsed_ms = 0, worker_thread = None, after_updates = [], after_ticks = 0,
            dialogs = [], spawned = 0 \<rparr>"

text \<open>\<open>self.worker_thread and self.worker_thread.is_alive()\<close>.\<close>

definition is_alive :: "thread \<Rightarrow> bool" where
  "is_alive w = (pc w \<noteq> Returned)"

definition alive :: "gui \<Rightarrow> bool" where
  "alive s = (case worker_thread s of None \<Rightarrow> False | Some w \<Rightarrow> is_alive w)"

definition new_thread :: thread where
  "new_thread = \<lparr> pc = Entered, device = '''', model_name = '''', input_path = '''',
                  language = None, posted = [], calls = [], caught = None \<rparr>"

subsection \<open>\<open>start_transcription\<close>\<close>

definition showerror :: "string \<Rightarrow> string \<Rightarrow> gui \<Rightarrow> gui" where
  "showerror title msg s = s\<lparr>dialogs := dialogs s @ [ShowError title msg]\<rparr>"

definition showinfo :: "string \<Rightarrow> string \<Rightarrow> gui \<Rightarrow> gui" where
  "showinfo title msg s = s\<lparr>dialogs := dialogs s @ [ShowInfo title msg]\<rparr>"

definition start_transcription :: "env \<Rightarrow> gui \<Rightarrow> gui" where
  "start_transcription e s =
     (let path = strip (input_var s) in
      if path = [] \<or> \<not> path_exists e path then
        showerror ''Error'' ''Please select a valid input file.'' s
      else if \<not> ffmpeg_available e then
        showerror ''ffmpeg not found''
          (''ffmpeg could not be executed.'' @ [CHR 0x0A] @
           ''Please adjust FFMPEG_DIR at the top of the script.'') s
      else if alive s then
        showinfo ''Info'' ''Transcription is already running.'' s
      else
        let duration_sec = get_media_duration e path;
            duration_sec = (if duration_sec \<le> 0 then 60 else duration_sec)
        in s\<lparr> estimated_seconds := duration_sec * 1.2,
               elapsed_ms := 0,
               progress := 0,
               status_var := ''Loading model and starting transcription ...'',
               worker_thread := Some new_thread,
               spawned := spawned s + 1,
               after_ticks := after_ticks s + 1 \<rparr>)"

subsection \<open>\<open>_progress_tick\<close>\<close>

text \<open>
  The callback returns the exception it raised, if any, and the window as it left it. The
  only operation of the body that can raise is the division, when
  \<open>self.estimated_seconds * 1000\<close> is zero; \<open>self.elapsed_ms\<close> has been incremented by then.
\<close>

definition remaining :: "real \<Rightarrow> int \<Rightarrow> real" where
  "remaining est elapsed = max 0 ((est * 1000 - real_of_int elapsed) / 1000)"

definition progress_tick :: "gui \<Rightarrow> exn option \<times> gui" where
  "progress_tick s =
     (if alive s then
        let s1 = s\<lparr>elapsed_ms := elapsed_ms s + 200\<rparr> in
        if estimated_seconds s1 * 1000 = 0 then
          (Some (Exception ''float division by zero''), s1)
        else
          let pct = (real_of_int (elapsed_ms s1) / (estimated_seconds s1 * 1000)) * 100;
              pct = min pct 98
          in (None,
              s1\<lparr> progress := pct,
                  status_var := ''Running ... estimated ~'' @
                    str_int (int_of_float (remaining (estimated_seconds s1) (elapsed_ms s1))) @
                    '' s remaining'',
                  after_ticks := after_ticks s1 + 1 \<rparr>)
      else (None, s\<lparr>progress := 100\<rparr>))"

subsection \<open>\<open>_do_transcription\<close>\<close>

text \<open>
  The body of the \<open>try\<close>, cut at its two blocking calls. A segment answers the messages it
  passed to \<open>_set_status\<close>, the exception that ended it (if one was raised), and the thread
  as the segment left it. Every form field is read where the source reads it, from the
  window as it is when the segment runs.
\<close>

definition msg_cuda :: string where
  "msg_cuda = ''CUDA not available, using CPU.''"

definition msg_loading :: "string \<Rightarrow> string" where
  "msg_loading name = ''Loading model '' @ [CHR 0x27] @ name @ [CHR 0x27] @ '' ...''"

definition msg_transcribing :: string where
  "msg_transcribing = ''Transcribing ...''"

definition msg_done :: "string \<Rightarrow> string" where
  "msg_done path = ''Done. Transcript saved to: '' @ path"

definition msg_error :: "exn \<Rightarrow> string" where
  "msg_error x = ''Error: '' @ str_of x"

text \<open>Lines 260 to 265: from \<open>torch.set_num_threads\<close> to the call of \<open>whisper.load_model\<close>.\<close>

definition begin_load :: "env \<Rightarrow> gui \<Rightarrow> thread \<Rightarrow> string \<Rightarrow> string list
    \<Rightarrow> string list \<times> exn option \<times> thread" where
  "begin_load e s w dev msgs =
     (case set_num_threads e of
        Inl x \<Rightarrow> (msgs, Some x, w\<lparr>device := dev\<rparr>)
      | Inr _ \<Rightarrow>
          let name = model_var s
          in (msgs @ [msg_loading name], None,
              w\<lparr> pc := InLoadModel, device := dev, model_name := name,
                  calls := calls w @ [LoadCall name dev] \<rparr>))"

definition segment :: "env \<Rightarrow> gui \<Rightarrow> thread \<Rightarrow> string list \<times> exn option \<times> thread" where
  "segment e s w =
     (case pc w of
        Entered \<Rightarrow>
          let dev = device_var s in
          if dev = ''cuda'' then
            (case cuda_is_available e of
               Inl x \<Rightarrow> ([], Some x, w\<lparr>device := dev\<rparr>)
             | Inr avail \<Rightarrow>
                 if \<not> avail then begin_load e s w ''cpu'' [msg_cuda]
                 else begin_load e s w dev [])
          else begin_load e s w dev []
      | InLoadModel \<Rightarrow>
          (case load_model e (model_name w) (device w) of
             Inl x \<Rightarrow> ([], Some x, w)
           | Inr _ \<Rightarrow>
               let path = strip (input_var s);
                   lang = (if lang_var s = ''Auto'' then None else Some (lang_var s))
               in ([msg_transcribing], None,
                   w\<lparr> pc := InTranscribe, input_path := path, language := lang,
                       calls := calls w @
                         [TranscribeCall path lang (device w = ''cuda'')] \<rparr>))
      | InTranscribe \<Rightarrow>
          (case transcribe e (input_path w) (language w) (device w = ''cuda'') of
             Inl x \<Rightarrow> ([], Some x, w)
           | Inr text \<Rightarrow>
               let output_path = strip (output_var s);
                   w1 = w\<lparr>calls := calls w @ [WriteCall output_path text]\<rparr>
               in (case write_text e output_path text of
                     Inl x \<Rightarrow> ([], Some x, w1)
                   | Inr _ \<Rightarrow> ([msg_done output_path], None, w1\<lparr>pc := Returned\<rparr>)))
      | Returned \<Rightarrow> ([], None, w))"

text \<open>
  \<open>try: ... except Exception as e: self._set_status(f"Error: {e}")\<close>: an exception ends the
  function after one more message; nothing is raised out of it.
\<close>

definition do_transcription :: "env \<Rightarrow> gui \<Rightarrow> thread \<Rightarrow> string list \<times> thread" where
  "do_transcription e s w =
     (case segment e s w of
        (msgs, Some x, w') \<Rightarrow> (msgs @ [msg_error x], w'\<lparr>pc := Returned, caught := Some x\<rparr>)
      | (msgs, None, w') \<Rightarrow> (msgs, w'))"

text \<open>
  \<open>_set_status\<close> queues one \<open>_update\<close> callback for its message with
  \<open>self.after(0, _update)\<close>; \<open>work\<close> lets the worker thread run to its next blocking call
  and queues, message by message, what it posted. Tk runs timer callbacks that are due at
  the same time in the order they were queued, so the queue is first in, first out. The
  calls into Tk from the worker thread (\<open>after\<close> and the reads of the form variables) are
  taken not to raise.
\<close>

definition set_status :: "string \<Rightarrow> gui \<Rightarrow> gui" where
  "set_status msg s = s\<lparr>after_updates := after_updates s @ [msg]\<rparr>"

definition work :: "env \<Rightarrow> gui \<Rightarrow> gui" where
  "work e s =
     (case worker_thread s of
        None \<Rightarrow> s
      | Some w \<Rightarrow>
          (case do_transcription e s w of
             (msgs, w') \<Rightarrow>
               fold set_status msgs
                 (s\<lparr>worker_thread := Some (w'\<lparr>posted := posted w @ msgs\<rparr>)\<rparr>)))"

text \<open>The main loop runs the oldest queued \<open>_update\<close>: \<open>self.status_var.set(msg)\<close>.\<close>

definition update :: "gui \<Rightarrow> gui" where
  "update s =
     (case after_updates s of
        [] \<Rightarrow> s
      | msg # rest \<Rightarrow> s\<lparr>status_var := msg, after_updates := rest\<rparr>)"

text \<open>The main loop runs one queued \<open>_progress_tick\<close>. Tk reports an exception raised by a
  callback and carries on.\<close>

definition tick :: "gui \<Rightarrow> gui" where
  "tick s =
     (if after_ticks s = 0 then s
      else snd (progress_tick (s\<lparr>after_ticks := after_ticks s - 1\<rparr>)))"

subsection \<open>Schedules\<close>

text \<open>
  What can happen to the window: the user changes a form field, the user presses the start
  button, the main loop runs a queued timer callback or a queued status update, the worker
  thread runs up to its next blocking call.
\<close>

datatype field = InputVar | ModelVar | LangVar | DeviceVar | OutputVar

datatype event = Edit field string | Start env | Tick | Update | Work env

fun edit :: "field \<Rightarrow> string \<Rightarrow> gui \<Rightarrow> gui" where
  "edit InputVar v s = s\<lparr>input_var := v\<rparr>"
| "edit ModelVar v s = s\<lparr>model_var := v\<rparr>"
| "edit LangVar v s = s\<lparr>lang_var := v\<rparr>"
| "edit DeviceVar v s = s\<lparr>device_var := v\<rparr>"
| "edit OutputVar v s = s\<lparr>output_var := v\<rparr>"

fun step :: "event \<Rightarrow> gui \<Rightarrow> gui" where
  "step (Edit f v) s = edit f v s"
| "step (Start e) s = start_transcription e s"
| "step Tick s = tick s"
| "step Update s = update s"
| "step (Work e) s = work e s"

fun run :: "event list \<Rightarrow> gui \<Rightarrow> gui" where
  "run [] s = s"
| "run (ev # evs) s = run evs (step ev s)"

fun is_edit :: "event \<Rightarrow> bool" where
  "is_edit (Edit _ _) = True"
| "is_edit _ = False"

fun is_start :: "event \<Rightarrow> bool" where
  "is_start (Start _) = True"
| "is_start _ = False"

fun is_work :: "event \<Rightarrow> bool" where
  "is_work (Work _) = True"
| "is_work _ = False"

subsection \<open>Notions used in the statements\<close>

text \<open>The three guards of \<open>start_transcription\<close> let the call through: a job starts.\<close>

definition job_starts :: "env \<Rightarrow> gui \<Rightarrow> bool" where
  "job_starts e s =
     (strip (input_var s) \<noteq> [] \<and> path_exists e (strip (input_var s)) \<and>
      ffmpeg_available e \<and> \<not> alive s)"

text \<open>A terminal status message: the done message or the error message.\<close>

definition is_terminal :: "string \<Rightarrow> bool" where
  "is_terminal m = (prefix ''Done. Transcript saved to: '' m \<or> prefix ''Error: '' m)"

text \<open>The form fields a job reads.\<close>

definition same_fields :: "gui \<Rightarrow> gui \<Rightarrow> bool" where
  "same_fields s t =
     (input_var s = input_var t \<and> model_var s = model_var t \<and> lang_var s = lang_var t \<and>
      device_var s = device_var t \<and> output_var s = output_var t)"

text \<open>
  A call whose arguments come from the form fields of the window \<open>f\<close>: the model name, the
  device or its downgrade, the stripped input path, the language (none for \<open>Auto\<close>), reduced
  precision only for \<open>cuda\<close>, the stripped output path.
\<close>

definition call_from :: "gui \<Rightarrow> call \<Rightarrow> bool" where
  "call_from f c =
     (case c of
        LoadCall n d \<Rightarrow>
          n = model_var f \<and> (d = device_var f \<or> device_var f = ''cuda'' \<and> d = ''cpu'')
      | TranscribeCall p l fp16 \<Rightarrow>
          p = strip (input_var f) \<and>
          l = (if lang_var f = ''Auto'' then None else Some (lang_var f)) \<and>
          (fp16 \<longrightarrow> device_var f = ''cuda'')
      | WriteCall p t \<Rightarrow> p = strip (output_var f))"

text \<open>A call made for the device \<open>cpu\<close>: loading on \<open>cpu\<close>, transcribing in full precision.\<close>

definition on_cpu :: "call \<Rightarrow> bool" where
  "on_cpu c =
     (case c of
        LoadCall n d \<Rightarrow> d = ''cpu''
      | TranscribeCall p l fp16 \<Rightarrow> \<not> fp16
      | WriteCall p t \<Rightarrow> True)"

text \<open>
  The window after a worker step that ended in the \<open>except\<close> clause with the exception
  \<open>x\<close>: the thread has returned, \<open>x\<close> is what it caught, and \<open>Error: \<close> followed by the
  text of \<open>x\<close> is the last message it posted and the last one queued.
\<close>

definition reports_error :: "exn \<Rightarrow> gui \<Rightarrow> bool" where
  "reports_error x s =
     (case worker_thread s of
        None \<Rightarrow> False
      | Some w \<Rightarrow>
          pc w = Returned \<and> caught w = Some x \<and>
          posted w \<noteq> [] \<and> last (posted w) = ''Error: '' @ str_of x \<and>
          after_updates s \<noteq> [] \<and> last (after_updates s) = ''Error: '' @ str_of x)"

subsection \<open>Invariants\<close>

text \<open>
  What the timer relies on: once a thread object exists the estimate is positive, the bar
  never shows more than 100, while the thread is alive the bar shows no more than the
  capped percentage of the simulated time, and until the bar shows 100 a timer callback is
  queued.
\<close>

definition tick_inv :: "gui \<Rightarrow> bool" where
  "tick_inv s =
     ((worker_thread s \<noteq> None \<longrightarrow> 0 < estimated_seconds s) \<and>
      progress s \<le> 100 \<and>
      (alive s \<longrightarrow>
         progress s \<le> min (real_of_int (elapsed_ms s) / (estimated_seconds s * 1000) * 100) 98) \<and>
      (worker_thread s \<noteq> None \<longrightarrow> progress s = 100 \<or> 0 < after_ticks s))"

text \<open>How far the thread has come.\<close>

fun rank :: "pc \<Rightarrow> nat" where
  "rank Entered = 0"
| "rank InLoadModel = 1"
| "rank InTranscribe = 2"
| "rank Returned = 3"

text \<open>
  The status messages of one thread: once the function has returned, the last message posted
  is the error message of the exception caught, or else the done message with the path just
  written, and no earlier message is terminal; before that, no message posted is terminal.
\<close>

definition thread_inv :: "thread \<Rightarrow> bool" where
  "thread_inv w =
     (if pc w = Returned then
        posted w \<noteq> [] \<and> (\<forall>m \<in> set (butlast (posted w)). \<not> is_terminal m) \<and>
        (case caught w of
           Some x \<Rightarrow> last (posted w) = msg_error x
         | None \<Rightarrow> \<exists>p t. last (posted w) = msg_done p \<and> calls w \<noteq> [] \<and>
                     last (calls w) = WriteCall p t)
      else caught w = None \<and> (\<forall>m \<in> set (posted w). \<not> is_terminal m))"

text \<open>
  One job: its thread satisfies \<open>thread_inv\<close>, has come at least \<open>n\<close> steps of the three that
  finish it, and the queue of pending updates is a tail of what was queued when the job
  started followed by what the thread has posted.
\<close>

definition job_inv :: "string list \<Rightarrow> nat \<Rightarrow> gui \<Rightarrow> bool" where
  "job_inv q n s =
     (case worker_thread s of
        None \<Rightarrow> False
      | Some w \<Rightarrow>
          thread_inv w \<and> min 3 n \<le> rank (pc w) \<and> suffix (after_updates s) (q @ posted w))"

text \<open>The thread has resolved its device to \<open>cpu\<close>, and its calls since are all for it.\<close>

definition cpu_inv :: "call list \<Rightarrow> gui \<Rightarrow> bool" where
  "cpu_inv k s =
     (case worker_thread s of
        None \<Rightarrow> False
      | Some w \<Rightarrow> device w = ''cpu'' \<and> pc w \<noteq> Entered \<and>
          (\<exists>rest. calls w = k @ rest \<and> list_all on_cpu rest))"

text \<open>The form fields are those of \<open>f\<close>, and the thread has read nothing else.\<close>

definition fields_inv :: "gui \<Rightarrow> gui \<Rightarrow> bool" where
  "fields_inv f s =
     (same_fields s f \<and>
      (case worker_thread s of
         None \<Rightarrow> True
       | Some w \<Rightarrow>
           (pc w \<noteq> Entered \<longrightarrow>
              device w = device_var f \<or> device_var f = ''cuda'' \<and> device w = ''cpu'') \<and>
           (\<forall>c \<in> set (calls w). call_from f c)))"

subsection \<open>Concrete collaborators, windows and schedules for the examples\<close>

text \<open>
  A machine without CUDA on which \<open>a.mp4\<close> and \<open>b.mp4\<close> exist, ffmpeg runs, ffprobe
  reports 30 seconds, and the engine transcribes every file to \<open>text of <path>\<close>.
\<close>

definition example_env :: env where
  "example_env =
     \<lparr> path_exists = (\<lambda>p. p = ''a.mp4'' \<or> p = ''b.mp4''),
       ffmpeg_run = Inr (),
       ffprobe_run = (\<lambda>p. Inr 30),
       cuda_is_available = Inr False,
       set_num_threads = Inr (),
       load_model = (\<lambda>name dev. Inr ()),
       transcribe = (\<lambda>path lang fp16. Inr (''text of '' @ path)),
       write_text = (\<lambda>path text. Inr ()) \<rparr>"

text \<open>The same machine, with a clip of half a second.\<close>

definition short_clip_env :: env where
  "short_clip_env = example_env\<lparr>ffprobe_run := (\<lambda>p. Inr 0.5)\<rparr>"

text \<open>The same machine, on which ffprobe fails.\<close>

definition no_probe_env :: env where
  "no_probe_env = example_env\<lparr>ffprobe_run := (\<lambda>p. Inl (Exception ''ffprobe''))\<rparr>"

text \<open>The same machine, on which the engine fails while transcribing.\<close>

definition failing_env :: env where
  "failing_env = example_env\<lparr>transcribe := (\<lambda>path lang fp16. Inl (Exception ''engine fault''))\<rparr>"

text \<open>The same machine, on which the model cannot be loaded.\<close>

definition no_model_env :: env where
  "no_model_env = example_env\<lparr>load_model := (\<lambda>name dev. Inl (Exception ''model not found''))\<rparr>"

text \<open>The window after the user has chosen \<open>a.mp4\<close>, and after the job has been started.\<close>

definition chosen :: gui where
  "chosen = edit InputVar ''a.mp4'' init"

definition running :: gui where
  "running = start_transcription example_env chosen"

text \<open>The running window after the user has cleared the input field.\<close>

definition running_blank :: gui where
  "running_blank = edit InputVar [] running"

text \<open>The running window once the simulated time has reached the estimate of 36 seconds.\<close>

definition overdue :: gui where
  "overdue = running\<lparr>elapsed_ms := 36000\<rparr>"

text \<open>The window after a job on the clip of half a second has been started.\<close>

definition short_running :: gui where
  "short_running = start_transcription short_clip_env chosen"

text \<open>The running window after the user has set the device field to \<open>cpu\<close>.\<close>

definition cpu_chosen :: gui where
  "cpu_chosen = edit DeviceVar ''cpu'' running"

text \<open>
  The thread of the example job inside \<open>load_model\<close> and inside \<open>transcribe\<close>, and the
  windows in which the user has edited a field just before the thread reads it.
\<close>

definition loading :: thread where
  "loading = new_thread\<lparr> pc := InLoadModel, device := ''cpu'', model_name := ''large'',
       posted := [msg_cuda, msg_loading ''large''], calls := [LoadCall ''large'' ''cpu''] \<rparr>"

definition transcribing :: thread where
  "transcribing = loading\<lparr> pc := InTranscribe, input_path := ''a.mp4'',
       language := Some ''German'',
       posted := [msg_cuda, msg_loading ''large'', msg_transcribing],
       calls := [LoadCall ''large'' ''cpu'',
         TranscribeCall ''a.mp4'' (Some ''German'') False] \<rparr>"

definition loading_edited :: gui where
  "loading_edited = edit InputVar ''b.mp4'' (work example_env running)"

definition transcribing_edited :: gui where
  "transcribing_edited =
     edit OutputVar ''other.txt'' (work example_env (work example_env running))"

text \<open>A job that has seen two ticks, and the same job once its worker has run to the end.\<close>

definition job_events :: "event list" where
  "job_events = [Edit InputVar ''a.mp4'', Start example_env, Tick, Tick]"

definition finished_events :: "event list" where
  "finished_events = job_events @ [Work example_env, Work example_env, Work example_env]"

text \<open>
  What follows the start of the example job: the engine fails; the user only waits; the user
  edits the input and the output field while the model loads; the user presses the button
  again while the job runs.
\<close>

definition fail_events :: "event list" where
  "fail_events = [Work example_env, Update, Work failing_env, Edit OutputVar ''other.txt'',
     Work failing_env]"

definition wait_events :: "event list" where
  "wait_events = [Update, Work example_env, Edit DeviceVar ''cuda'', Work example_env]"

definition edited_events :: "event list" where
  "edited_events = [Work example_env, Edit InputVar ''b.mp4'', Edit OutputVar ''other.txt'',
     Work example_env, Work example_env]"

definition quiet_events :: "event list" where
  "quiet_events = [Work example_env, Update, Work example_env, Start example_env,
     Work example_env]"

section \<open>Properties\<close>

subsection \<open>Evaluation of the examples\<close>

lemma strip_a: "strip ''a.mp4'' = ''a.mp4''"
  by (simp add: strip_def isspace_def)

lemma strip_empty: "strip [] = []"
  by (simp add: strip_def)

lemma job_starts_chosen_any:
  "ffmpeg_run e = Inr () \<Longrightarrow> path_exists e ''a.mp4'' \<Longrightarrow> job_starts e chosen"
  by (simp add: job_starts_def chosen_def init_def strip_a ffmpeg_available_def alive_def)

lemma job_starts_chosen: "job_starts example_env chosen"
  by (rule job_starts_chosen_any) (simp_all add: example_env_def)

lemma job_starts_no_probe: "job_starts no_probe_env chosen"
  by (rule job_starts_chosen_any) (simp_all add: no_probe_env_def example_env_def)

lemma job_starts_short_clip: "job_starts short_clip_env chosen"
  by (rule job_starts_chosen_any) (simp_all add: short_clip_env_def example_env_def)

lemma start_when_job_starts:
  "job_starts e s \<Longrightarrow>
   start_transcription e s =
     s\<lparr> estimated_seconds :=
          (if get_media_duration e (strip (input_var s)) \<le> 0 then 60
           else get_media_duration e (strip (input_var s))) * 1.2,
        elapsed_ms := 0, progress := 0,
        status_var := ''Loading model and starting transcription ...'',
        worker_thread := Some new_thread,
        spawned := spawned s + 1,
        after_ticks := after_ticks s + 1 \<rparr>"
  by (simp add: job_starts_def start_transcription_def Let_def)

lemma running_eq:
  "running = chosen\<lparr> estimated_seconds := 36, elapsed_ms := 0, progress := 0,
        status_var := ''Loading model and starting transcription ...'',
        worker_thread := Some new_thread,
        spawned := 1,
        after_ticks := 1 \<rparr>"
  unfolding running_def
  by (simp add: start_when_job_starts [OF job_starts_chosen])
     (simp add: chosen_def init_def get_media_duration_def example_env_def)

lemma alive_running: "alive running"
  by (simp add: running_eq alive_def is_alive_def new_thread_def)

subsection \<open>The guards of \<open>start_transcription\<close>\<close>

text \<open>
  Claim C8. When the input path, stripped, is empty or names no existing file,
  \<open>start_transcription\<close> only shows the error box \<open>Please select a valid input file.\<close>:
  the window is otherwise unchanged, so no thread is started, none is spawned, no timer
  callback or status update is queued, and a window without a live job still has none.
\<close>

theorem start_invalid_input:
  assumes "strip (input_var s) = [] \<or> \<not> path_exists e (strip (input_var s))"
  shows "start_transcription e s =
           s\<lparr>dialogs := dialogs s @ [ShowError ''Error'' ''Please select a valid input file.'']\<rparr>
         \<and> worker_thread (start_transcription e s) = worker_thread s
         \<and> spawned (start_transcription e s) = spawned s
         \<and> alive (start_transcription e s) = alive s
         \<and> after_ticks (start_transcription e s) = after_ticks s
         \<and> after_updates (start_transcription e s) = after_updates s"
  using assms by (auto simp add: start_transcription_def showerror_def alive_def)

theorem start_invalid_input_witness:
  "strip (input_var init) = []
   \<and> \<not> alive init
   \<and> start_transcription example_env init =
       init\<lparr>dialogs := [ShowError ''Error'' ''Please select a valid input file.'']\<rparr>
   \<and> \<not> alive (start_transcription example_env init)
   \<and> spawned (start_transcription example_env init) = 0"
  using start_invalid_input [of init example_env]
  by (simp add: init_def strip_empty alive_def)

text \<open>
  Claim C4. While a job is alive, \<open>start_transcription\<close> leaves the thread object, the
  number of threads started, \<open>estimated_seconds\<close>, \<open>elapsed_ms\<close>, the progress value and
  the queued timer callbacks as they are, whatever the form fields and the collaborators.
\<close>

theorem start_while_alive_frame:
  assumes "alive s"
  shows "worker_thread (start_transcription e s) = worker_thread s
       \<and> spawned (start_transcription e s) = spawned s
       \<and> estimated_seconds (start_transcription e s) = estimated_seconds s
       \<and> elapsed_ms (start_transcription e s) = elapsed_ms s
       \<and> progress (start_transcription e s) = progress s
       \<and> after_ticks (start_transcription e s) = after_ticks s"
  using assms by (simp add: start_transcription_def showerror_def showinfo_def Let_def)

theorem start_while_alive_frame_witness:
  "alive running
   \<and> worker_thread (start_transcription example_env running) = Some new_thread
   \<and> spawned (start_transcription example_env running) = 1
   \<and> estimated_seconds (start_transcription example_env running) = 36
   \<and> elapsed_ms (start_transcription example_env running) = 0
   \<and> progress (start_transcription example_env running) = 0"
  using start_while_alive_frame [OF alive_running, of example_env] alive_running
  by (simp add: running_eq)

text \<open>
  Claim C2, as stated, fails: the guards on the input path and on ffmpeg come before the
  guard on the live job. With a job alive and the input field cleared, the call shows the
  error box, not the information box.
\<close>

theorem start_alive_dialog_counterexample:
  "alive running_blank
   \<and> start_transcription example_env running_blank =
       running_blank\<lparr>dialogs := [ShowError ''Error'' ''Please select a valid input file.'']\<rparr>"
  by (simp add: running_blank_def running_eq chosen_def init_def alive_def is_alive_def
      new_thread_def start_transcription_def strip_empty showerror_def)

text \<open>
  Claim C2, amended. While a job is alive, \<open>start_transcription\<close> changes nothing but the
  message box it shows. The box is the information box \<open>Transcription is already running.\<close>
  when the stripped input path is non-empty and exists and ffmpeg runs; it is the error box
  of the input path when that guard fails, and otherwise the error box of ffmpeg.
\<close>

theorem start_alive_dialog:
  assumes "alive s"
  shows "start_transcription e s =
           (if strip (input_var s) = [] \<or> \<not> path_exists e (strip (input_var s)) then
              s\<lparr>dialogs := dialogs s @
                   [ShowError ''Error'' ''Please select a valid input file.'']\<rparr>
            else if \<not> ffmpeg_available e then
              s\<lparr>dialogs := dialogs s @
                   [ShowError ''ffmpeg not found''
                      (''ffmpeg could not be executed.'' @ [CHR 0x0A] @
                       ''Please adjust FFMPEG_DIR at the top of the script.'')]\<rparr>
            else
              s\<lparr>dialogs := dialogs s @
                   [ShowInfo ''Info'' ''Transcription is already running.'']\<rparr>)"
  using assms by (simp add: start_transcription_def showerror_def showinfo_def Let_def)

theorem start_alive_dialog_witness:
  "alive running
   \<and> start_transcription example_env running =
       running\<lparr>dialogs := [ShowInfo ''Info'' ''Transcription is already running.'']\<rparr>"
  using start_alive_dialog [OF alive_running, of example_env] alive_running
  by (simp add: running_eq chosen_def init_def strip_a example_env_def ffmpeg_available_def)

subsection \<open>The estimate\<close>

text \<open>
  Claim C6. When a job starts, \<open>estimated_seconds\<close> is 72 if the duration probe failed or
  reported a duration that is not positive, and the reported duration times 1.2 otherwise.
\<close>

theorem start_estimate:
  assumes "job_starts e s"
  shows "estimated_seconds (start_transcription e s) =
           (case ffprobe_run e (strip (input_var s)) of
              Inl _ \<Rightarrow> 72
            | Inr d \<Rightarrow> if d \<le> 0 then 72 else d * 1.2)"
  using assms
  by (simp add: start_when_job_starts get_media_duration_def split: sum.splits)

theorem start_estimate_witness:
  "job_starts example_env chosen \<and> job_starts no_probe_env chosen
   \<and> estimated_seconds (start_transcription example_env chosen) = 36
   \<and> estimated_seconds (start_transcription no_probe_env chosen) = 72"
  using start_estimate [OF job_starts_chosen] start_estimate [OF job_starts_no_probe]
    job_starts_chosen job_starts_no_probe
  by (simp add: chosen_def init_def strip_a example_env_def no_probe_env_def)

subsection \<open>Decimal digits and the clamp\<close>

lemma digit_not_minus: "n < 10 \<Longrightarrow> ''0123456789'' ! n \<noteq> CHR ''-''"
proof -
  assume "n < 10"
  then have "''0123456789'' ! n \<in> set ''0123456789''" by (intro nth_mem) simp
  then show ?thesis by auto
qed

lemma digits10_no_minus: "CHR ''-'' \<notin> set (digits10 n)"
proof (induction n rule: digits10.induct)
  case (1 n)
  show ?case
  proof (cases "n < 10")
    case True
    then show ?thesis using digit_not_minus [of n] by (subst digits10.simps) auto
  next
    case False
    have "n mod 10 < 10" by simp
    then have "''0123456789'' ! (n mod 10) \<noteq> CHR ''-''" by (rule digit_not_minus)
    with False 1 show ?thesis by (subst digits10.simps) auto
  qed
qed

lemma digits10_zero: "digits10 0 = ''0''"
  by (subst digits10.simps) simp

lemma digits10_35: "digits10 35 = ''35''"
  by (simp add: digits10.simps)

lemma remaining_nonneg: "0 \<le> remaining est el"
  by (simp add: remaining_def)

lemma remaining_zero: "est * 1000 \<le> real_of_int el \<Longrightarrow> remaining est el = 0"
  by (simp add: remaining_def max_def)

lemma int_of_float_nonneg: "0 \<le> x \<Longrightarrow> 0 \<le> int_of_float x"
  by (simp add: int_of_float_def)

subsection \<open>Schedules and the invariant of the timer\<close>

lemma run_invariant:
  assumes "P s" and "\<And>ev t. ev \<in> set evs \<Longrightarrow> P t \<Longrightarrow> P (step ev t)"
  shows "P (run evs s)"
  using assms by (induction evs arbitrary: s) auto

lemma fold_set_status:
  "fold set_status msgs s = s\<lparr>after_updates := after_updates s @ msgs\<rparr>"
  by (induction msgs arbitrary: s) (simp_all add: set_status_def)

lemma do_transcription_Returned: "pc w = Returned \<Longrightarrow> do_transcription e s w = ([], w)"
  by (simp add: do_transcription_def segment_def)

lemma alive_work: "alive (work e s) \<Longrightarrow> alive s"
  by (cases "worker_thread s")
     (auto simp add: work_def alive_def is_alive_def fold_set_status do_transcription_Returned
        split: prod.splits)

lemma work_frame:
  "estimated_seconds (work e s) = estimated_seconds s"
  "elapsed_ms (work e s) = elapsed_ms s"
  "progress (work e s) = progress s"
  "after_ticks (work e s) = after_ticks s"
  "(worker_thread (work e s) = None) = (worker_thread s = None)"
  by (auto simp add: work_def fold_set_status split: option.splits prod.splits)

lemma alive_worker: "alive s \<Longrightarrow> worker_thread s \<noteq> None"
  by (auto simp add: alive_def split: option.splits)

lemma tick_inv_init: "tick_inv init"
  by (simp add: tick_inv_def init_def alive_def)

lemma tick_inv_edit: "tick_inv s \<Longrightarrow> tick_inv (edit f v s)"
  by (cases f) (simp_all add: tick_inv_def alive_def)

lemma tick_inv_start: "tick_inv s \<Longrightarrow> tick_inv (start_transcription e s)"
  by (simp add: tick_inv_def start_transcription_def showerror_def showinfo_def Let_def alive_def
      is_alive_def new_thread_def)

lemma tick_inv_update: "tick_inv s \<Longrightarrow> tick_inv (update s)"
  by (simp add: tick_inv_def update_def alive_def split: list.splits)

lemma tick_inv_work: "tick_inv s \<Longrightarrow> tick_inv (work e s)"
  using alive_work [of e s] by (auto simp add: tick_inv_def work_frame)

lemma pct_mono:
  assumes "0 < (est::real)"
  shows "min (real_of_int el / (est * 1000) * 100) 98
       \<le> min (real_of_int (el + 200) / (est * 1000) * 100) 98"
proof -
  let ?a = "real_of_int el / (est * 1000) * 100"
  let ?b = "real_of_int (el + 200) / (est * 1000) * 100"
  from assms have "real_of_int el / (est * 1000) \<le> real_of_int (el + 200) / (est * 1000)"
    by (intro divide_right_mono) simp_all
  then have "?a \<le> ?b"
    by (intro mult_right_mono) simp_all
  then show "min ?a 98 \<le> min ?b 98"
    by (rule min.mono) simp
qed

lemma progress_tick_alive:
  assumes "alive s" and "0 < estimated_seconds s"
  shows "progress_tick s =
     (None, s\<lparr> elapsed_ms := elapsed_ms s + 200,
               progress := min (real_of_int (elapsed_ms s + 200) / (estimated_seconds s * 1000) * 100) 98,
               status_var := ''Running ... estimated ~'' @
                 str_int (int_of_float (remaining (estimated_seconds s) (elapsed_ms s + 200))) @
                 '' s remaining'',
               after_ticks := after_ticks s + 1 \<rparr>)"
  using assms by (simp add: progress_tick_def Let_def)

lemma progress_tick_dead: "\<not> alive s \<Longrightarrow> progress_tick s = (None, s\<lparr>progress := 100\<rparr>)"
  by (simp add: progress_tick_def)

lemma tick_inv_tick: "tick_inv s \<Longrightarrow> tick_inv (tick s)"
proof (cases "after_ticks s = 0")
  case True
  assume "tick_inv s"
  with True show ?thesis by (simp add: tick_def)
next
  case False
  assume i: "tick_inv s"
  let ?s1 = "s\<lparr>after_ticks := after_ticks s - 1\<rparr>"
  have t: "tick s = snd (progress_tick ?s1)" using False by (simp add: tick_def)
  show ?thesis
  proof (cases "alive s")
    case True
    then have a: "alive ?s1" by (simp add: alive_def)
    from i True have p: "0 < estimated_seconds ?s1" by (simp add: tick_inv_def alive_worker)
    from i True show ?thesis
      unfolding t progress_tick_alive [OF a p] by (simp add: tick_inv_def alive_def)
  next
    case dead: False
    then have a: "\<not> alive ?s1" by (simp add: alive_def)
    from i dead show ?thesis
      unfolding t progress_tick_dead [OF a] by (simp add: tick_inv_def alive_def)
  qed
qed

lemma tick_inv_step: "tick_inv s \<Longrightarrow> tick_inv (step ev s)"
  by (cases ev) (simp_all add: tick_inv_edit tick_inv_start tick_inv_tick tick_inv_update tick_inv_work)

lemma tick_inv_run: "tick_inv (run evs init)"
  by (rule run_invariant) (simp_all add: tick_inv_init tick_inv_step)

lemma alive_start: "job_starts e s \<Longrightarrow> alive (start_transcription e s)"
  by (simp add: start_when_job_starts alive_def is_alive_def new_thread_def)

lemma estimate_after_start:
  assumes "job_starts e s"
  shows "estimated_seconds (start_transcription e s) =
           (case ffprobe_run e (strip (input_var s)) of
              Inl _ \<Rightarrow> 72
            | Inr d \<Rightarrow> if 0 < d then d * 1.2 else 72)"
  using assms
  by (simp add: start_when_job_starts get_media_duration_def split: sum.splits)

lemma estimated_seconds_step:
  assumes "is_start ev \<longrightarrow> alive s"
  shows "estimated_seconds (step ev s) = estimated_seconds s"
proof (cases ev)
  case (Edit f v)
  then show ?thesis by (cases f) simp_all
next
  case (Start e)
  with assms show ?thesis
    by (simp add: start_transcription_def showerror_def showinfo_def Let_def)
next
  case Tick
  then show ?thesis by (simp add: tick_def progress_tick_def Let_def)
next
  case Update
  then show ?thesis by (simp add: update_def split: list.splits)
next
  case (Work e)
  then show ?thesis by (simp add: work_frame)
qed

lemma progress_step:
  assumes "ev \<noteq> Tick" and "is_start ev \<longrightarrow> alive s"
  shows "progress (step ev s) = progress s"
proof (cases ev)
  case (Edit f v)
  then show ?thesis by (cases f) simp_all
next
  case (Start e)
  with assms show ?thesis
    by (simp add: start_transcription_def showerror_def showinfo_def Let_def)
next
  case Tick
  with assms show ?thesis by simp
next
  case Update
  then show ?thesis by (simp add: update_def split: list.splits)
next
  case (Work e)
  then show ?thesis by (simp add: work_frame)
qed

lemma dead_step:
  assumes "\<not> alive s" and "\<not> is_start ev"
  shows "\<not> alive (step ev s)"
proof (cases ev)
  case (Edit f v)
  with assms show ?thesis by (cases f) (simp_all add: alive_def)
next
  case (Start e)
  with assms show ?thesis by simp
next
  case Tick
  with assms show ?thesis by (simp add: tick_def progress_tick_def alive_def)
next
  case Update
  with assms show ?thesis by (simp add: update_def alive_def split: list.splits)
next
  case (Work e)
  with assms alive_work [of e s] show ?thesis by auto
qed

lemma short_running_eq:
  "short_running = chosen\<lparr> estimated_seconds := 0.6, elapsed_ms := 0, progress := 0,
        status_var := ''Loading model and starting transcription ...'',
        worker_thread := Some new_thread,
        spawned := 1,
        after_ticks := 1 \<rparr>"
  unfolding short_running_def
  by (simp add: start_when_job_starts [OF job_starts_short_clip])
     (simp add: chosen_def init_def get_media_duration_def example_env_def short_clip_env_def)

lemma run_to_running: "run [Edit InputVar ''a.mp4'', Start example_env] init = running"
  by (simp add: running_def chosen_def)

lemma alive_frame:
  "alive (s\<lparr>elapsed_ms := a\<rparr>) = alive s"
  "alive (s\<lparr>progress := b\<rparr>) = alive s"
  "alive (s\<lparr>status_var := c\<rparr>) = alive s"
  "alive (s\<lparr>after_ticks := d\<rparr>) = alive s"
  "alive (s\<lparr>after_updates := u\<rparr>) = alive s"
  "alive (s\<lparr>dialogs := g\<rparr>) = alive s"
  by (simp_all add: alive_def)

lemma run_job_events:
  "run job_events init =
     running\<lparr> elapsed_ms := 400, progress := 10 / 9,
               status_var := ''Running ... estimated ~35 s remaining'' \<rparr>"
proof -
  have e: "0 < estimated_seconds running" by (simp add: running_eq)
  have t1: "tick running =
     running\<lparr> elapsed_ms := 200, progress := 5 / 9,
               status_var := ''Running ... estimated ~35 s remaining'' \<rparr>"
    (is "_ = ?r1")
    using alive_running
    by (simp add: tick_def progress_tick_def alive_frame Let_def)
       (simp add: running_eq remaining_def int_of_float_def str_int_def digits10_35)
  have a1: "alive ?r1" using alive_running by (simp add: alive_frame)
  have t2: "tick ?r1 =
     running\<lparr> elapsed_ms := 400, progress := 10 / 9,
               status_var := ''Running ... estimated ~35 s remaining'' \<rparr>"
    using alive_running
    by (simp add: tick_def progress_tick_def alive_frame Let_def)
       (simp add: running_eq remaining_def int_of_float_def str_int_def digits10_35)
  have "run job_events init = tick (tick running)"
    by (simp add: job_events_def running_def chosen_def)
  then show ?thesis by (simp only: t1 t2)
qed

lemma run_append: "run (xs @ ys) s = run ys (run xs s)"
  by (induction xs arbitrary: s) simp_all


lemmas eval_defs = running_eq chosen_def init_def new_thread_def work_def do_transcription_def
  segment_def begin_load_def fold_set_status example_env_def failing_env_def Let_def
  strip_def isspace_def msg_cuda_def msg_loading_def msg_transcribing_def msg_done_def
  msg_error_def update_def
lemmas start_defs = start_transcription_def showerror_def showinfo_def alive_def is_alive_def
  ffmpeg_available_def get_media_duration_def

lemma run_finished_events:
  "alive (run finished_events init) = False
   \<and> progress (run finished_events init) = 10 / 9
   \<and> after_ticks (run finished_events init) = 1"
  by (simp add: finished_events_def run_append run_job_events)
     (simp add: eval_defs alive_def is_alive_def)


lemma finished_state:
  "run finished_events init =
     running\<lparr> elapsed_ms := 400, progress := 10 / 9,
               status_var := ''Running ... estimated ~35 s remaining'',
               worker_thread := Some (new_thread\<lparr> pc := Returned, device := ''cpu'',
                 model_name := ''large'', input_path := ''a.mp4'', language := Some ''German'',
                 posted := [msg_cuda, msg_loading ''large'', msg_transcribing,
                   msg_done ''transcript_output.txt''],
                 calls := [LoadCall ''large'' ''cpu'',
                   TranscribeCall ''a.mp4'' (Some ''German'') False,
                   WriteCall ''transcript_output.txt'' ''text of a.mp4''] \<rparr>),
               after_updates := [msg_cuda, msg_loading ''large'', msg_transcribing,
                   msg_done ''transcript_output.txt''] \<rparr>"
  by (simp add: finished_events_def run_append run_job_events)
     (simp add: eval_defs)

subsection \<open>The progress value\<close>

text \<open>
  Claim C9, as stated, fails in its parenthesis: the estimate is the probed duration times
  1.2, with no lower bound of 1.2. For a clip of half a second the probe succeeds with a
  positive duration, the job is alive, the tick divides without fault, and the estimate
  is 0.6.
\<close>

theorem estimate_positive_counterexample:
  "ffprobe_run short_clip_env (strip (input_var chosen)) = Inr 0.5
   \<and> job_starts short_clip_env chosen
   \<and> alive short_running
   \<and> fst (progress_tick short_running) = None
   \<and> estimated_seconds short_running = 0.6
   \<and> \<not> 1.2 \<le> estimated_seconds short_running"
  using job_starts_short_clip
  by (simp add: short_running_eq progress_tick_def alive_def is_alive_def new_thread_def
      short_clip_env_def example_env_def)


text \<open>
  Claim C9, amended. In every state the window can reach from its initial state, if the
  job is alive then \<open>estimated_seconds\<close> is strictly positive, the divisor
  \<open>estimated_seconds * 1000\<close> is not zero and \<open>_progress_tick\<close> raises nothing. The
  estimate is set when a job starts, to 1.2 times the probed duration when the probe
  succeeds with a positive duration and to 72 otherwise, and nothing but the start of a
  job changes it.
\<close>

theorem estimate_positive:
  "(alive (run evs init) \<longrightarrow>
      0 < estimated_seconds (run evs init)
      \<and> estimated_seconds (run evs init) * 1000 \<noteq> 0
      \<and> fst (progress_tick (run evs init)) = None)
   \<and> (job_starts e s \<longrightarrow>
        alive (start_transcription e s)
        \<and> 0 < estimated_seconds (start_transcription e s)
        \<and> estimated_seconds (start_transcription e s) =
            (case ffprobe_run e (strip (input_var s)) of
               Inl _ \<Rightarrow> 72
             | Inr d \<Rightarrow> if 0 < d then d * 1.2 else 72))
   \<and> ((is_start ev \<longrightarrow> alive t) \<longrightarrow> estimated_seconds (step ev t) = estimated_seconds t)"
proof (intro conjI impI)
  assume a: "alive (run evs init)"
  with tick_inv_run [of evs] show p: "0 < estimated_seconds (run evs init)"
    by (simp add: tick_inv_def alive_worker)
  then show "estimated_seconds (run evs init) * 1000 \<noteq> 0" by simp
  from a p show "fst (progress_tick (run evs init)) = None"
    by (simp add: progress_tick_alive)
next
  assume j: "job_starts e s"
  then show "alive (start_transcription e s)" by (rule alive_start)
  from j show "estimated_seconds (start_transcription e s) =
      (case ffprobe_run e (strip (input_var s)) of
         Inl _ \<Rightarrow> 72 | Inr d \<Rightarrow> if 0 < d then d * 1.2 else 72)"
    by (rule estimate_after_start)
  then show "0 < estimated_seconds (start_transcription e s)"
    by (simp split: sum.splits)
next
  assume "is_start ev \<longrightarrow> alive t"
  then show "estimated_seconds (step ev t) = estimated_seconds t"
    by (rule estimated_seconds_step)
qed

theorem estimate_positive_witness:
  "alive (run [Edit InputVar ''a.mp4'', Start example_env] init)
   \<and> estimated_seconds (run [Edit InputVar ''a.mp4'', Start example_env] init) = 36
   \<and> fst (progress_tick (run [Edit InputVar ''a.mp4'', Start example_env] init)) = None
   \<and> job_starts short_clip_env chosen
   \<and> estimated_seconds (start_transcription short_clip_env chosen) = 0.6
   \<and> \<not> is_start Tick
   \<and> estimated_seconds (step Tick running) = 36"
proof -
  let ?evs = "[Edit InputVar ''a.mp4'', Start example_env]"
  note t = estimate_positive [of ?evs short_clip_env chosen Tick running]
  have a: "alive (run ?evs init)" by (simp only: run_to_running alive_running)
  have e: "estimated_seconds (run ?evs init) = 36"
    by (simp only: run_to_running) (simp add: running_eq)
  from t a have n: "fst (progress_tick (run ?evs init)) = None" by blast
  have p: "ffprobe_run short_clip_env (strip (input_var chosen)) = Inr 0.5"
    by (simp add: short_clip_env_def)
  from t job_starts_short_clip
  have "estimated_seconds (start_transcription short_clip_env chosen) =
      (case ffprobe_run short_clip_env (strip (input_var chosen)) of
         Inl _ \<Rightarrow> 72 | Inr d \<Rightarrow> if 0 < d then d * 1.2 else 72)"
    by blast
  with p have s: "estimated_seconds (start_transcription short_clip_env chosen) = 0.6"
    by simp
  from t have "estimated_seconds (step Tick running) = estimated_seconds running"
    by simp
  then have k: "estimated_seconds (step Tick running) = 36"
    by (simp add: running_eq)
  from a e n job_starts_short_clip s k show ?thesis by simp
qed


text \<open>
  Claim C3, as stated, fails for a job that is replaced before its last tick: the thread of
  the first job has returned and the bar shows 10/9; the user presses the button again
  before the queued tick runs; the first tick after the end of the first thread finds the
  new thread alive, shows 5/9 (less than before, and not 100) and reschedules itself, so
  that two callbacks are queued.
\<close>

theorem progress_monotone_counterexample:
  "map_option pc (worker_thread (run finished_events init)) = Some Returned
   \<and> \<not> alive (run finished_events init)
   \<and> progress (run finished_events init) = 10 / 9
   \<and> after_ticks (run finished_events init) = 1
   \<and> progress (run (finished_events @ [Start example_env, Tick]) init) = 5 / 9
   \<and> after_ticks (run (finished_events @ [Start example_env, Tick]) init) = 2"
proof -
  have 1: "map_option pc (worker_thread (run finished_events init)) = Some Returned"
    by (simp add: finished_state)
  have 2: "run (finished_events @ [Start example_env, Tick]) init =
      tick (start_transcription example_env (run finished_events init))"
    by (simp add: run_append)
  have 3: "progress (tick (start_transcription example_env (run finished_events init))) = 5 / 9
      \<and> after_ticks (tick (start_transcription example_env (run finished_events init))) = 2"
    unfolding finished_state
    by (simp add: eval_defs start_defs tick_def progress_tick_def)
  from 1 2 3 run_finished_events show ?thesis by simp
qed

text \<open>
  Claim C3, amended. In every state the window can reach from its initial state, a run of
  \<open>_progress_tick\<close> never lowers the progress value, and no other event changes the value
  except a start that begins a new job. If the worker thread is alive, the value was at most
  98 and is at most 98 afterwards, the callback raises nothing and reschedules itself. If
  the thread is not alive, the callback sets the value to exactly 100 and does not
  reschedule itself; a thread that is not alive stays so until a new job is started, and a
  timer callback stays queued until the value is 100. So the first tick after the end of the
  thread sets 100 and ends the polling, provided no new job has been started in between.
\<close>

theorem progress_monotone:
  "let s = run evs init; s' = snd (progress_tick s) in
     progress s \<le> progress s'
     \<and> (alive s \<longrightarrow>
          fst (progress_tick s) = None \<and> progress s \<le> 98 \<and> progress s' \<le> 98
          \<and> after_ticks s' = after_ticks s + 1)
     \<and> (\<not> alive s \<longrightarrow> progress s' = 100 \<and> after_ticks s' = after_ticks s)
     \<and> (\<forall>ev. ev \<noteq> Tick \<longrightarrow> (is_start ev \<longrightarrow> alive s) \<longrightarrow>
            progress (step ev s) = progress s)
     \<and> (\<forall>ev. \<not> alive s \<longrightarrow> \<not> is_start ev \<longrightarrow> \<not> alive (step ev s))
     \<and> (worker_thread s \<noteq> None \<longrightarrow> progress s = 100 \<or> 0 < after_ticks s)"
proof -
  let ?s = "run evs init"
  let ?s' = "snd (progress_tick ?s)"
  have inv: "tick_inv ?s" by (rule tick_inv_run)
  have dead: "progress ?s' = 100 \<and> after_ticks ?s' = after_ticks ?s" if "\<not> alive ?s"
    using that by (simp add: progress_tick_dead)
  have live: "fst (progress_tick ?s) = None \<and> progress ?s \<le> 98 \<and> progress ?s' \<le> 98
      \<and> after_ticks ?s' = after_ticks ?s + 1 \<and> progress ?s \<le> progress ?s'" if a: "alive ?s"
  proof -
    from inv a have p: "0 < estimated_seconds ?s" by (simp add: tick_inv_def alive_worker)
    from inv a have b: "progress ?s \<le>
        min (real_of_int (elapsed_ms ?s) / (estimated_seconds ?s * 1000) * 100) 98"
      by (simp add: tick_inv_def)
    also have "\<dots> \<le> min (real_of_int (elapsed_ms ?s + 200) / (estimated_seconds ?s * 1000) * 100) 98"
      using p by (rule pct_mono)
    finally have m: "progress ?s \<le> progress ?s'"
      by (simp add: progress_tick_alive [OF a p])
    from b have "progress ?s \<le> 98" by simp
    with m show ?thesis by (simp add: progress_tick_alive [OF a p])
  qed
  have mono: "progress ?s \<le> progress ?s'"
  proof (cases "alive ?s")
    case True
    then show ?thesis using live by blast
  next
    case False
    with dead have "progress ?s' = 100" by blast
    with inv show ?thesis by (simp add: tick_inv_def)
  qed
  have frame: "\<forall>ev. ev \<noteq> Tick \<longrightarrow> (is_start ev \<longrightarrow> alive ?s) \<longrightarrow>
      progress (step ev ?s) = progress ?s"
    by (simp add: progress_step)
  have stays: "\<forall>ev. \<not> alive ?s \<longrightarrow> \<not> is_start ev \<longrightarrow> \<not> alive (step ev ?s)"
    by (simp add: dead_step)
  from inv have pending: "worker_thread ?s \<noteq> None \<longrightarrow> progress ?s = 100 \<or> 0 < after_ticks ?s"
    by (simp add: tick_inv_def)
  from mono live dead frame stays pending show ?thesis unfolding Let_def by blast
qed

theorem progress_monotone_witness:
  "alive (run job_events init)
   \<and> progress (run job_events init) = 10 / 9
   \<and> progress (snd (progress_tick (run job_events init))) = 5 / 3
   \<and> after_ticks (snd (progress_tick (run job_events init))) = 2
   \<and> Edit ModelVar ''tiny'' \<noteq> Tick
   \<and> progress (step (Edit ModelVar ''tiny'') (run job_events init)) = 10 / 9
   \<and> \<not> alive (run finished_events init)
   \<and> progress (run finished_events init) = 10 / 9
   \<and> progress (snd (progress_tick (run finished_events init))) = 100
   \<and> after_ticks (snd (progress_tick (run finished_events init))) = 1
   \<and> \<not> is_start Update
   \<and> \<not> alive (step Update (run finished_events init))"
proof -
  have a: "alive (run job_events init)"
    using alive_running by (simp add: run_job_events alive_frame)
  have p: "progress (run job_events init) = 10 / 9"
    by (simp add: run_job_events)
  have q: "progress (snd (progress_tick (run job_events init))) = 5 / 3"
    using alive_running
    by (simp add: run_job_events progress_tick_def alive_frame Let_def) (simp add: running_eq)
  have n: "after_ticks (run job_events init) = 1"
    by (simp add: run_job_events running_eq)
  note live = progress_monotone [of job_events, unfolded Let_def]
  note dead = progress_monotone [of finished_events, unfolded Let_def]
  from live a n have r: "after_ticks (snd (progress_tick (run job_events init))) = 2"
    by simp
  from live have "progress (step (Edit ModelVar ''tiny'') (run job_events init)) =
      progress (run job_events init)"
    by simp
  with p have f: "progress (step (Edit ModelVar ''tiny'') (run job_events init)) = 10 / 9"
    by simp
  from dead run_finished_events
  have d: "progress (snd (progress_tick (run finished_events init))) = 100
      \<and> after_ticks (snd (progress_tick (run finished_events init))) = 1"
    by simp
  from dead run_finished_events
  have u: "\<not> alive (step Update (run finished_events init))"
    by (metis is_start.simps(4))
  from a p q r f d u run_finished_events show ?thesis by simp
qed

subsection \<open>The remaining time shown\<close>

text \<open>
  Claim C10. On a tick that finds the job alive, in any state the window can reach from its
  initial state (or in any state at all in which the estimate is not zero), the status text
  is \<open>Running ... estimated ~N s remaining\<close> where \<open>N\<close> is the integer part of the clamped
  remaining time: \<open>N\<close> is never negative, its text has no minus sign, and once the
  simulated time has reached the estimate the text shows 0.
\<close>

theorem remaining_clamped:
  assumes "alive s" and "s = run evs init \<or> estimated_seconds s \<noteq> 0"
  shows "status_var (snd (progress_tick s)) =
           ''Running ... estimated ~'' @
           str_int (int_of_float (remaining (estimated_seconds s) (elapsed_ms s + 200))) @
           '' s remaining''
       \<and> 0 \<le> int_of_float (remaining (estimated_seconds s) (elapsed_ms s + 200))
       \<and> CHR ''-'' \<notin> set (str_int (int_of_float
             (remaining (estimated_seconds s) (elapsed_ms s + 200))))
       \<and> (estimated_seconds s * 1000 \<le> real_of_int (elapsed_ms s + 200) \<longrightarrow>
            status_var (snd (progress_tick s)) = ''Running ... estimated ~0 s remaining'')"
proof -
  let ?r = "remaining (estimated_seconds s) (elapsed_ms s + 200)"
  have ne: "estimated_seconds s \<noteq> 0"
  proof (cases "s = run evs init")
    case True
    from assms(1) have "worker_thread s \<noteq> None" by (rule alive_worker)
    with tick_inv_run [of evs] True have "0 < estimated_seconds s"
      by (simp add: tick_inv_def)
    then show ?thesis by simp
  next
    case False
    with assms(2) show ?thesis by simp
  qed
  have st: "status_var (snd (progress_tick s)) =
      ''Running ... estimated ~'' @ str_int (int_of_float ?r) @ '' s remaining''"
    using assms(1) ne by (simp add: progress_tick_def Let_def)
  have nn: "0 \<le> int_of_float ?r"
    by (rule int_of_float_nonneg) (rule remaining_nonneg)
  then have nm: "CHR ''-'' \<notin> set (str_int (int_of_float ?r))"
    by (simp add: str_int_def digits10_no_minus)
  have z: "status_var (snd (progress_tick s)) = ''Running ... estimated ~0 s remaining''"
    if "estimated_seconds s * 1000 \<le> real_of_int (elapsed_ms s + 200)"
  proof -
    from that have "?r = 0" by (rule remaining_zero)
    then have "str_int (int_of_float ?r) = ''0''"
      by (simp add: int_of_float_def str_int_def digits10_zero)
    with st show ?thesis by simp
  qed
  from st nn nm z show ?thesis by blast
qed

theorem remaining_clamped_witness:
  "alive overdue \<and> estimated_seconds overdue \<noteq> 0
   \<and> status_var (snd (progress_tick overdue)) = ''Running ... estimated ~0 s remaining''
   \<and> alive (run job_events init)
   \<and> status_var (snd (progress_tick (run job_events init))) =
       ''Running ... estimated ~35 s remaining''"
proof -
  let ?j = "run job_events init"
  have a: "alive overdue"
    by (simp add: overdue_def running_eq alive_def is_alive_def new_thread_def)
  have e: "estimated_seconds overdue \<noteq> 0"
    by (simp add: overdue_def running_eq)
  have le: "estimated_seconds overdue * 1000 \<le> real_of_int (elapsed_ms overdue + 200)"
    by (simp add: overdue_def running_eq)
  have b: "alive ?j"
    using alive_running by (simp add: run_job_events alive_frame)
  have r: "int_of_float (remaining (estimated_seconds ?j) (elapsed_ms ?j + 200)) = 35"
    by (simp add: run_job_events) (simp add: running_eq remaining_def int_of_float_def)
  from remaining_clamped [OF a, of "[]"] e le
  have 1: "status_var (snd (progress_tick overdue)) = ''Running ... estimated ~0 s remaining''"
    by blast
  from remaining_clamped [OF b, of job_events] r
  have 2: "status_var (snd (progress_tick ?j)) = ''Running ... estimated ~35 s remaining''"
    by (simp add: str_int_def digits10_35)
  from a e 1 b 2 show ?thesis by blast
qed

subsection \<open>The worker thread\<close>

lemma work_Entered_downgrade:
  assumes "worker_thread s = Some w" and "pc w = Entered" and "device_var s = ''cuda''"
    and "cuda_is_available e = Inr False" and "set_num_threads e = Inr ()"
  shows "work e s =
     s\<lparr> worker_thread := Some (w\<lparr> pc := InLoadModel, device := ''cpu'',
            model_name := model_var s,
            posted := posted w @ [msg_cuda, msg_loading (model_var s)],
            calls := calls w @ [LoadCall (model_var s) ''cpu''] \<rparr>),
        after_updates := after_updates s @ [msg_cuda, msg_loading (model_var s)] \<rparr>"
  using assms
  by (simp add: work_def do_transcription_def segment_def begin_load_def fold_set_status Let_def)

lemma work_Entered:
  assumes "worker_thread s = Some w" and "pc w = Entered"
    and "device_var s = ''cuda'' \<longrightarrow> cuda_is_available e = Inr True"
    and "set_num_threads e = Inr ()"
  shows "work e s =
     s\<lparr> worker_thread := Some (w\<lparr> pc := InLoadModel, device := device_var s,
            model_name := model_var s,
            posted := posted w @ [msg_loading (model_var s)],
            calls := calls w @ [LoadCall (model_var s) (device_var s)] \<rparr>),
        after_updates := after_updates s @ [msg_loading (model_var s)] \<rparr>"
  using assms
  by (simp add: work_def do_transcription_def segment_def begin_load_def fold_set_status Let_def)

lemma work_InLoadModel:
  assumes "worker_thread s = Some w" and "pc w = InLoadModel"
    and "load_model e (model_name w) (device w) = Inr ()"
  shows "work e s =
     s\<lparr> worker_thread := Some (w\<lparr> pc := InTranscribe, input_path := strip (input_var s),
            language := (if lang_var s = ''Auto'' then None else Some (lang_var s)),
            posted := posted w @ [msg_transcribing],
            calls := calls w @
              [TranscribeCall (strip (input_var s))
                 (if lang_var s = ''Auto'' then None else Some (lang_var s))
                 (device w = ''cuda'')] \<rparr>),
        after_updates := after_updates s @ [msg_transcribing] \<rparr>"
  using assms
  by (simp add: work_def do_transcription_def segment_def fold_set_status Let_def)

lemma work_InTranscribe:
  assumes "worker_thread s = Some w" and "pc w = InTranscribe"
    and "transcribe e (input_path w) (language w) (device w = ''cuda'') = Inr text"
    and "write_text e (strip (output_var s)) text = Inr ()"
  shows "work e s =
     s\<lparr> worker_thread := Some (w\<lparr> pc := Returned,
            posted := posted w @ [msg_done (strip (output_var s))],
            calls := calls w @ [WriteCall (strip (output_var s)) text] \<rparr>),
        after_updates := after_updates s @ [msg_done (strip (output_var s))] \<rparr>"
  using assms
  by (simp add: work_def do_transcription_def segment_def fold_set_status Let_def)

lemma not_terminal_msgs [simp]:
  "\<not> is_terminal msg_cuda" "\<not> is_terminal (msg_loading name)" "\<not> is_terminal msg_transcribing"
  by (simp_all add: is_terminal_def msg_cuda_def msg_loading_def msg_transcribing_def)

lemma terminal_msgs [simp]: "is_terminal (msg_done p)" "is_terminal (msg_error x)"
  by (simp_all add: is_terminal_def msg_done_def msg_error_def)

lemma begin_load_cases:
  assumes "begin_load e s w dev msgs = (ms, r, w')"
  shows "(r \<noteq> None \<and> ms = msgs \<and> pc w' = pc w \<and> calls w' = calls w)
       \<or> (r = None \<and> ms = msgs @ [msg_loading (model_var s)] \<and> pc w' = InLoadModel
            \<and> calls w' = calls w @ [LoadCall (model_var s) dev])"
  using assms by (auto simp add: begin_load_def Let_def split: sum.splits)

lemma begin_load_frame:
  assumes "begin_load e s w dev msgs = (ms, r, w')"
  shows "caught w' = caught w \<and> posted w' = posted w \<and> device w' = dev"
  using assms by (auto simp add: begin_load_def Let_def split: sum.splits)

lemma segment_frame:
  assumes "segment e s w = (ms, r, w')"
  shows "caught w' = caught w \<and> posted w' = posted w"
  using assms
  by (auto simp add: segment_def Let_def dest: begin_load_frame
      split: pc.splits sum.splits if_splits)

lemma segment_msgs:
  assumes "segment e s w = (ms, r, w')" and "pc w \<noteq> Returned"
  shows "(r \<noteq> None \<and> (\<forall>m \<in> set ms. \<not> is_terminal m))
       \<or> (r = None \<and> pc w' \<noteq> Returned \<and> (\<forall>m \<in> set ms. \<not> is_terminal m))
       \<or> (r = None \<and> pc w' = Returned \<and>
            (\<exists>p t. ms = [msg_done p] \<and> calls w' \<noteq> [] \<and> last (calls w') = WriteCall p t))"
  using assms
  by (auto simp add: segment_def Let_def dest!: begin_load_cases
      split: pc.splits sum.splits if_splits)

lemma segment_rank:
  assumes "segment e s w = (ms, None, w')" and "pc w \<noteq> Returned"
  shows "rank (pc w') = Suc (rank (pc w))"
  using assms
  by (auto simp add: segment_def Let_def dest!: begin_load_cases
      split: pc.splits sum.splits if_splits)

lemma thread_inv_do_transcription:
  assumes inv: "thread_inv w" and d: "do_transcription e s w = (msgs, w')"
  shows "thread_inv (w'\<lparr>posted := posted w @ msgs\<rparr>)"
proof (cases "pc w = Returned")
  case True
  with d have "msgs = []" and "w' = w" by (simp_all add: do_transcription_Returned)
  with inv show ?thesis by simp
next
  case False
  obtain ms r v where seg: "segment e s w = (ms, r, v)" by (cases "segment e s w") auto
  from segment_frame [OF seg] have fr: "caught v = caught w" "posted v = posted w" by simp_all
  from inv False have old: "caught w = None" "\<forall>m \<in> set (posted w). \<not> is_terminal m"
    by (simp_all add: thread_inv_def)
  show ?thesis
  proof (cases r)
    case (Some x)
    with seg d have m: "msgs = ms @ [msg_error x]" and w': "w' = v\<lparr>pc := Returned, caught := Some x\<rparr>"
      by (simp_all add: do_transcription_def)
    from segment_msgs [OF seg False] Some have "\<forall>m \<in> set ms. \<not> is_terminal m" by auto
    with old show ?thesis
      by (auto simp add: thread_inv_def m w' butlast_append)
  next
    case None
    with seg d have m: "msgs = ms" and w': "w' = v" by (simp_all add: do_transcription_def)
    from segment_msgs [OF seg False] None
    consider (go) "pc v \<noteq> Returned" "\<forall>m \<in> set ms. \<not> is_terminal m"
      | (fin) p t where "pc v = Returned" "ms = [msg_done p]" "calls v \<noteq> []"
          "last (calls v) = WriteCall p t"
      by auto
    then show ?thesis
    proof cases
      case go
      with old fr show ?thesis by (auto simp add: thread_inv_def m w')
    next
      case fin
      with old fr show ?thesis by (auto simp add: thread_inv_def m w')
    qed
  qed
qed

lemma do_transcription_rank:
  assumes "do_transcription e s w = (msgs, w')"
  shows "min 3 (Suc (rank (pc w))) \<le> rank (pc w')"
proof (cases "pc w = Returned")
  case True
  with assms show ?thesis by (simp add: do_transcription_Returned)
next
  case False
  obtain ms r v where seg: "segment e s w = (ms, r, v)" by (cases "segment e s w") auto
  show ?thesis
  proof (cases r)
    case (Some x)
    with seg assms show ?thesis by (auto simp add: do_transcription_def)
  next
    case None
    with seg assms have "w' = v" by (simp add: do_transcription_def)
    with segment_rank [of e s w ms v] seg None False show ?thesis by simp
  qed
qed

lemma job_inv_work:
  assumes "job_inv q n s"
  shows "job_inv q (Suc n) (work e s)"
proof -
  from assms obtain w where w: "worker_thread s = Some w" and inv: "thread_inv w"
    and rk: "min 3 n \<le> rank (pc w)" and sf: "suffix (after_updates s) (q @ posted w)"
    by (auto simp add: job_inv_def split: option.splits)
  obtain msgs w' where d: "do_transcription e s w = (msgs, w')"
    by (cases "do_transcription e s w") auto
  from thread_inv_do_transcription [OF inv d]
  have 1: "thread_inv (w'\<lparr>posted := posted w @ msgs\<rparr>)" .
  from do_transcription_rank [OF d] rk
  have 2: "min 3 (Suc n) \<le> rank (pc w')" by simp
  from sf have 3: "suffix (after_updates s @ msgs) (q @ posted w @ msgs)"
    by (auto simp add: suffix_def)
  from 1 2 3 show ?thesis
    by (simp add: job_inv_def work_def w d fold_set_status)
qed

lemma job_inv_other:
  assumes "job_inv q n s" and "\<not> is_start ev" and "\<not> is_work ev"
  shows "job_inv q n (step ev s)"
proof (cases ev)
  case (Edit f v)
  with assms show ?thesis by (cases f) (auto simp add: job_inv_def split: option.splits)
next
  case (Start e)
  with assms show ?thesis by simp
next
  case Tick
  with assms show ?thesis
    by (auto simp add: job_inv_def tick_def progress_tick_def Let_def split: option.splits)
next
  case Update
  with assms show ?thesis
    by (auto simp add: job_inv_def update_def suffix_ConsD split: list.splits option.splits)
next
  case (Work e)
  with assms show ?thesis by simp
qed

lemma job_inv_run:
  assumes "job_inv q n s" and "\<forall>ev \<in> set evs. \<not> is_start ev"
  shows "job_inv q (n + length (filter is_work evs)) (run evs s)"
  using assms
proof (induction evs arbitrary: s n)
  case Nil
  then show ?case by simp
next
  case (Cons ev evs)
  show ?case
  proof (cases "is_work ev")
    case True
    then obtain e where ev: "ev = Work e" by (cases ev) auto
    from Cons.prems have "job_inv q (Suc n) (step ev s)" by (simp add: ev job_inv_work)
    with Cons.IH [of "Suc n" "step ev s"] Cons.prems True show ?thesis by simp
  next
    case False
    with Cons.prems have "job_inv q n (step ev s)" by (simp add: job_inv_other)
    with Cons.IH [of n "step ev s"] Cons.prems False show ?thesis by simp
  qed
qed

lemma job_inv_start:
  assumes "job_starts e s"
  shows "job_inv (after_updates s) 0 (start_transcription e s)"
  using assms
  by (simp add: start_when_job_starts job_inv_def thread_inv_def new_thread_def)

lemma drain_updates:
  assumes "after_updates s = q" and "q \<noteq> []"
  shows "status_var (run (replicate (length q) Update) s) = last q
       \<and> after_updates (run (replicate (length q) Update) s) = []"
  using assms
proof (induction q arbitrary: s)
  case Nil
  then show ?case by simp
next
  case (Cons m rest)
  let ?t = "update s"
  from Cons.prems have t: "status_var ?t = m" "after_updates ?t = rest"
    by (simp_all add: update_def)
  show ?case
  proof (cases "rest = []")
    case True
    with t show ?thesis by simp
  next
    case False
    from Cons.IH [OF t(2) False] False show ?thesis by simp
  qed
qed

lemma last_suffix: "suffix q ys \<Longrightarrow> q \<noteq> [] \<Longrightarrow> last q = last ys"
  by (auto simp add: suffix_def)

lemma status_var_after_return:
  assumes "worker_thread s = Some w" and "pc w = Returned"
    and "ev \<noteq> Update" and "\<not> is_start ev"
  shows "status_var (step ev s) = status_var s"
proof (cases ev)
  case (Edit f v)
  then show ?thesis by (cases f) simp_all
next
  case (Start e)
  with assms show ?thesis by simp
next
  case Tick
  from assms have "\<not> alive (s\<lparr>after_ticks := after_ticks s - 1\<rparr>)"
    by (simp add: alive_def is_alive_def)
  then show ?thesis unfolding Tick by (simp add: tick_def progress_tick_dead)
next
  case Update
  with assms show ?thesis by simp
next
  case (Work e)
  with assms show ?thesis
    by (simp add: work_def do_transcription_Returned)
qed

lemmas work_defs = work_def do_transcription_def segment_def begin_load_def fold_set_status
  reports_error_def msg_error_def Let_def

lemma reports_cuda:
  assumes "worker_thread s = Some w" and "pc w = Entered" and "device_var s = ''cuda''"
    and "cuda_is_available e = Inl x"
  shows "reports_error x (work e s)"
  using assms by (simp add: work_defs)

lemma reports_set_num_threads:
  assumes "worker_thread s = Some w" and "pc w = Entered"
    and "device_var s = ''cuda'' \<longrightarrow> \<not> isl (cuda_is_available e)"
    and "set_num_threads e = Inl x"
  shows "reports_error x (work e s)"
  using assms by (cases "cuda_is_available e") (simp_all add: work_defs)

lemma reports_load_model:
  assumes "worker_thread s = Some w" and "pc w = InLoadModel"
    and "load_model e (model_name w) (device w) = Inl x"
  shows "reports_error x (work e s)"
  using assms by (simp add: work_defs)

lemma reports_transcribe:
  assumes "worker_thread s = Some w" and "pc w = InTranscribe"
    and "transcribe e (input_path w) (language w) (device w = ''cuda'') = Inl x"
  shows "reports_error x (work e s)"
  using assms by (simp add: work_defs)

lemma reports_write_text:
  assumes "worker_thread s = Some w" and "pc w = InTranscribe"
    and "transcribe e (input_path w) (language w) (device w = ''cuda'') = Inr text"
    and "write_text e (strip (output_var s)) text = Inl x"
  shows "reports_error x (work e s)"
  using assms by (simp add: work_defs)

text \<open>
  Claim C5. Take any job that \<open>start_transcription\<close> has started and any schedule of the
  events that follow it (edits, ticks, status updates, worker steps with any outcome of the
  collaborators, exceptions included) up to the next start. The thread exists; after three
  worker steps \<open>_do_transcription\<close> has returned, whatever was raised; until it returns no
  terminal message has been posted; once it has returned the last message posted is the
  terminal one, no earlier message is terminal, and it is \<open>Error: \<close> followed by the text
  of the exception caught, or else \<open>Done. Transcript saved to: \<close> followed by the path just
  written. The pending updates are always a tail of what was queued before the job followed
  by what the thread posted; each update sets the status text to the oldest pending message;
  once the thread has returned, running the pending updates leaves the terminal message as
  the status text, and no edit, tick or worker step changes the status text any more.

  What is caught is what was raised: when \<open>torch.cuda.is_available\<close>,
  \<open>torch.set_num_threads\<close>, \<open>whisper.load_model\<close>, \<open>model.transcribe\<close> or the writing of the
  output raises \<open>x\<close>, that worker step ends the thread with \<open>Error: \<close> and the text of \<open>x\<close>
  as its last message; when transcription and writing succeed, the step ends the thread with
  the done message for the path written. \<open>do_transcription\<close> answers messages and a thread,
  never an exception.
\<close>

theorem do_transcription_terminal:
  "(job_starts e0 s0 \<longrightarrow> (\<forall>ev \<in> set evs. \<not> is_start ev) \<longrightarrow>
      (\<exists>w. worker_thread (run evs (start_transcription e0 s0)) = Some w
         \<and> (3 \<le> length (filter is_work evs) \<longrightarrow> pc w = Returned)
         \<and> (pc w \<noteq> Returned \<longrightarrow>
              caught w = None \<and> (\<forall>m \<in> set (posted w). \<not> is_terminal m))
         \<and> (pc w = Returned \<longrightarrow>
              posted w \<noteq> [] \<and> is_terminal (last (posted w))
              \<and> (\<forall>m \<in> set (butlast (posted w)). \<not> is_terminal m)
              \<and> (case caught w of
                   Some x \<Rightarrow> last (posted w) = ''Error: '' @ str_of x
                 | None \<Rightarrow> \<exists>p t. last (posted w) = ''Done. Transcript saved to: '' @ p
                             \<and> calls w \<noteq> [] \<and> last (calls w) = WriteCall p t)
              \<and> (\<forall>ev. ev \<noteq> Update \<longrightarrow> \<not> is_start ev \<longrightarrow>
                     status_var (step ev (run evs (start_transcription e0 s0))) =
                     status_var (run evs (start_transcription e0 s0)))
              \<and> (after_updates (run evs (start_transcription e0 s0)) \<noteq> [] \<longrightarrow>
                    status_var (run (replicate
                        (length (after_updates (run evs (start_transcription e0 s0)))) Update)
                      (run evs (start_transcription e0 s0))) = last (posted w)
                  \<and> after_updates (run (replicate
                        (length (after_updates (run evs (start_transcription e0 s0)))) Update)
                      (run evs (start_transcription e0 s0))) = []))
         \<and> suffix (after_updates (run evs (start_transcription e0 s0)))
              (after_updates s0 @ posted w)))
   \<and> (after_updates s = m # rest \<longrightarrow>
        status_var (update s) = m \<and> after_updates (update s) = rest)
   \<and> (worker_thread s = Some w \<longrightarrow> pc w = Entered \<longrightarrow> device_var s = ''cuda'' \<longrightarrow>
        cuda_is_available e = Inl x \<longrightarrow> reports_error x (work e s))
   \<and> (worker_thread s = Some w \<longrightarrow> pc w = Entered \<longrightarrow>
        (device_var s = ''cuda'' \<longrightarrow> \<not> isl (cuda_is_available e)) \<longrightarrow>
        set_num_threads e = Inl x \<longrightarrow> reports_error x (work e s))
   \<and> (worker_thread s = Some w \<longrightarrow> pc w = InLoadModel \<longrightarrow>
        load_model e (model_name w) (device w) = Inl x \<longrightarrow> reports_error x (work e s))
   \<and> (worker_thread s = Some w \<longrightarrow> pc w = InTranscribe \<longrightarrow>
        transcribe e (input_path w) (language w) (device w = ''cuda'') = Inl x \<longrightarrow>
        reports_error x (work e s))
   \<and> (worker_thread s = Some w \<longrightarrow> pc w = InTranscribe \<longrightarrow>
        transcribe e (input_path w) (language w) (device w = ''cuda'') = Inr text \<longrightarrow>
        write_text e (strip (output_var s)) text = Inl x \<longrightarrow> reports_error x (work e s))
   \<and> (worker_thread s = Some w \<longrightarrow> pc w = InTranscribe \<longrightarrow>
        transcribe e (input_path w) (language w) (device w = ''cuda'') = Inr text \<longrightarrow>
        write_text e (strip (output_var s)) text = Inr () \<longrightarrow>
        worker_thread (work e s) =
          Some (w\<lparr> pc := Returned,
                   posted := posted w @
                     [''Done. Transcript saved to: '' @ strip (output_var s)],
                   calls := calls w @ [WriteCall (strip (output_var s)) text] \<rparr>)
        \<and> after_updates (work e s) =
            after_updates s @ [''Done. Transcript saved to: '' @ strip (output_var s)])"
proof (intro conjI impI)
  assume j: "job_starts e0 s0" and ns: "\<forall>ev \<in> set evs. \<not> is_start ev"
  let ?s = "run evs (start_transcription e0 s0)"
  let ?n = "length (filter is_work evs)"
  from job_inv_run [OF job_inv_start [OF j] ns]
  have "job_inv (after_updates s0) ?n ?s" by simp
  then obtain w where w: "worker_thread ?s = Some w" and inv: "thread_inv w"
    and rk: "min 3 ?n \<le> rank (pc w)" and sf: "suffix (after_updates ?s) (after_updates s0 @ posted w)"
    by (auto simp add: job_inv_def split: option.splits)
  have fin: "pc w = Returned" if "3 \<le> ?n"
    using that rk by (cases "pc w") simp_all
  have live: "caught w = None \<and> (\<forall>m \<in> set (posted w). \<not> is_terminal m)" if "pc w \<noteq> Returned"
    using that inv by (simp add: thread_inv_def)
  have msgs: "posted w \<noteq> [] \<and> is_terminal (last (posted w))
      \<and> (\<forall>m \<in> set (butlast (posted w)). \<not> is_terminal m)
      \<and> (case caught w of
            Some x \<Rightarrow> last (posted w) = ''Error: '' @ str_of x
          | None \<Rightarrow> \<exists>p t. last (posted w) = ''Done. Transcript saved to: '' @ p
                      \<and> calls w \<noteq> [] \<and> last (calls w) = WriteCall p t)"
    if r: "pc w = Returned"
  proof (cases "caught w")
    case None
    with inv r obtain p t where "last (posted w) = msg_done p" "calls w \<noteq> []"
      "last (calls w) = WriteCall p t"
      by (auto simp add: thread_inv_def)
    moreover from this have "is_terminal (last (posted w))" by simp
    ultimately show ?thesis using inv r None
      by (auto simp add: thread_inv_def msg_done_def)
  next
    case (Some x)
    with inv r have l: "last (posted w) = msg_error x" by (simp add: thread_inv_def)
    then have "is_terminal (last (posted w))" by simp
    with l show ?thesis using inv r Some
      by (auto simp add: thread_inv_def msg_error_def)
  qed
  have keep: "\<forall>ev. ev \<noteq> Update \<longrightarrow> \<not> is_start ev \<longrightarrow> status_var (step ev ?s) = status_var ?s"
    if r: "pc w = Returned"
    using status_var_after_return [OF w r] by blast
  have drain: "status_var (run (replicate (length (after_updates ?s)) Update) ?s) = last (posted w)
      \<and> after_updates (run (replicate (length (after_updates ?s)) Update) ?s) = []"
    if r: "pc w = Returned" and q: "after_updates ?s \<noteq> []"
  proof -
    from msgs [OF r] have "posted w \<noteq> []" by blast
    with last_suffix [OF sf q] have "last (after_updates ?s) = last (posted w)" by simp
    with drain_updates [OF refl q] show ?thesis by simp
  qed
  from w fin live msgs keep drain sf
  show "\<exists>w. worker_thread ?s = Some w
         \<and> (3 \<le> ?n \<longrightarrow> pc w = Returned)
         \<and> (pc w \<noteq> Returned \<longrightarrow>
              caught w = None \<and> (\<forall>m \<in> set (posted w). \<not> is_terminal m))
         \<and> (pc w = Returned \<longrightarrow>
              posted w \<noteq> [] \<and> is_terminal (last (posted w))
              \<and> (\<forall>m \<in> set (butlast (posted w)). \<not> is_terminal m)
              \<and> (case caught w of
                   Some x \<Rightarrow> last (posted w) = ''Error: '' @ str_of x
                 | None \<Rightarrow> \<exists>p t. last (posted w) = ''Done. Transcript saved to: '' @ p
                             \<and> calls w \<noteq> [] \<and> last (calls w) = WriteCall p t)
              \<and> (\<forall>ev. ev \<noteq> Update \<longrightarrow> \<not> is_start ev \<longrightarrow>
                     status_var (step ev ?s) = status_var ?s)
              \<and> (after_updates ?s \<noteq> [] \<longrightarrow>
                    status_var (run (replicate (length (after_updates ?s)) Update) ?s) =
                      last (posted w)
                  \<and> after_updates (run (replicate (length (after_updates ?s)) Update) ?s) = []))
         \<and> suffix (after_updates ?s) (after_updates s0 @ posted w)"
    by blast
next
  assume "after_updates s = m # rest"
  then show "status_var (update s) = m" and "after_updates (update s) = rest"
    by (simp_all add: update_def)
next
  assume "worker_thread s = Some w" "pc w = Entered" "device_var s = ''cuda''"
    "cuda_is_available e = Inl x"
  then show "reports_error x (work e s)" by (rule reports_cuda)
next
  assume "worker_thread s = Some w" "pc w = Entered"
    "device_var s = ''cuda'' \<longrightarrow> \<not> isl (cuda_is_available e)" "set_num_threads e = Inl x"
  then show "reports_error x (work e s)" by (rule reports_set_num_threads)
next
  assume "worker_thread s = Some w" "pc w = InLoadModel"
    "load_model e (model_name w) (device w) = Inl x"
  then show "reports_error x (work e s)" by (rule reports_load_model)
next
  assume "worker_thread s = Some w" "pc w = InTranscribe"
    "transcribe e (input_path w) (language w) (device w = ''cuda'') = Inl x"
  then show "reports_error x (work e s)" by (rule reports_transcribe)
next
  assume "worker_thread s = Some w" "pc w = InTranscribe"
    "transcribe e (input_path w) (language w) (device w = ''cuda'') = Inr text"
    "write_text e (strip (output_var s)) text = Inl x"
  then show "reports_error x (work e s)" by (rule reports_write_text)
next
  assume a: "worker_thread s = Some w" "pc w = InTranscribe"
    "transcribe e (input_path w) (language w) (device w = ''cuda'') = Inr text"
    "write_text e (strip (output_var s)) text = Inr ()"
  from work_InTranscribe [OF a]
  show "worker_thread (work e s) =
          Some (w\<lparr> pc := Returned,
                   posted := posted w @
                     [''Done. Transcript saved to: '' @ strip (output_var s)],
                   calls := calls w @ [WriteCall (strip (output_var s)) text] \<rparr>)"
    and "after_updates (work e s) =
            after_updates s @ [''Done. Transcript saved to: '' @ strip (output_var s)]"
    by (simp_all add: msg_done_def)
qed

lemma worker_loading: "worker_thread (work example_env running) = Some loading"
  by (simp add: loading_def eval_defs)

lemma fail_state:
  "map_option (\<lambda>w. (caught w, calls w))
      (worker_thread (run fail_events (start_transcription example_env chosen))) =
      Some (Some (Exception ''engine fault''),
        [LoadCall ''large'' ''cpu'', TranscribeCall ''a.mp4'' (Some ''German'') False])"
  "length (after_updates (run fail_events (start_transcription example_env chosen))) = 3"
  unfolding running_def [symmetric] fail_events_def by (simp_all add: eval_defs)

theorem do_transcription_terminal_witness:
  "job_starts example_env chosen
   \<and> filter is_start fail_events = []
   \<and> 3 \<le> length (filter is_work fail_events)
   \<and> (\<exists>w. worker_thread (run fail_events (start_transcription example_env chosen)) = Some w
        \<and> pc w = Returned
        \<and> caught w = Some (Exception ''engine fault'')
        \<and> last (posted w) = ''Error: engine fault''
        \<and> is_terminal (last (posted w))
        \<and> (\<forall>m \<in> set (butlast (posted w)). \<not> is_terminal m)
        \<and> calls w = [LoadCall ''large'' ''cpu'', TranscribeCall ''a.mp4'' (Some ''German'') False])
   \<and> length (after_updates (run fail_events (start_transcription example_env chosen))) = 3
   \<and> status_var (run (replicate 3 Update)
        (run fail_events (start_transcription example_env chosen))) = ''Error: engine fault''
   \<and> worker_thread (work example_env running) = Some loading
   \<and> pc loading = InLoadModel
   \<and> load_model no_model_env (model_name loading) (device loading) =
       Inl (Exception ''model not found'')
   \<and> reports_error (Exception ''model not found'') (work no_model_env (work example_env running))
   \<and> last (after_updates (work no_model_env (work example_env running))) =
       ''Error: model not found''"
proof -
  let ?s = "run fail_events (start_transcription example_env chosen)"
  let ?x = "Exception ''model not found''"
  note t = do_transcription_terminal [of example_env chosen fail_events
      "work example_env running" _ _ loading no_model_env ?x]
  have ns: "\<forall>ev \<in> set fail_events. \<not> is_start ev" by (simp add: fail_events_def)
  have nf: "filter is_start fail_events = []" by (simp add: fail_events_def)
  have n3: "3 \<le> length (filter is_work fail_events)" by (simp add: fail_events_def)
  from t [THEN conjunct1, THEN mp, OF job_starts_chosen, THEN mp, OF ns]
  obtain w where w: "worker_thread ?s = Some w"
    and fin: "3 \<le> length (filter is_work fail_events) \<longrightarrow> pc w = Returned"
    and dead: "pc w = Returned \<longrightarrow>
          posted w \<noteq> [] \<and> is_terminal (last (posted w))
          \<and> (\<forall>m \<in> set (butlast (posted w)). \<not> is_terminal m)
          \<and> (case caught w of
               Some x \<Rightarrow> last (posted w) = ''Error: '' @ str_of x
             | None \<Rightarrow> \<exists>p t. last (posted w) = ''Done. Transcript saved to: '' @ p
                         \<and> calls w \<noteq> [] \<and> last (calls w) = WriteCall p t)
          \<and> (after_updates ?s \<noteq> [] \<longrightarrow>
                status_var (run (replicate (length (after_updates ?s)) Update) ?s) =
                  last (posted w))"
    by blast
  from w fail_state(1) have c: "caught w = Some (Exception ''engine fault'')"
    and k: "calls w = [LoadCall ''large'' ''cpu'', TranscribeCall ''a.mp4'' (Some ''German'') False]"
    by simp_all
  from fin n3 have r: "pc w = Returned" by blast
  with dead c have l: "last (posted w) = ''Error: engine fault''"
    and i: "is_terminal (last (posted w))"
    and b: "\<forall>m \<in> set (butlast (posted w)). \<not> is_terminal m"
    by auto
  from fail_state(2) have q: "after_updates ?s \<noteq> []" by auto
  with dead r l fail_state(2)
  have d: "status_var (run (replicate 3 Update) ?s) = ''Error: engine fault''"
    by simp
  have h2: "pc loading = InLoadModel" by (simp add: loading_def)
  have h3: "load_model no_model_env (model_name loading) (device loading) = Inl ?x"
    by (simp add: no_model_env_def)
  note t5 = t [THEN conjunct2, THEN conjunct2, THEN conjunct2, THEN conjunct2, THEN conjunct1]
  from t5 worker_loading h2 h3
  have e: "reports_error ?x (work no_model_env (work example_env running))" by blast
  then have f: "last (after_updates (work no_model_env (work example_env running))) =
      ''Error: model not found''"
    by (auto simp add: reports_error_def split: option.splits)
  from w r c l i b k have "\<exists>w. worker_thread ?s = Some w
        \<and> pc w = Returned
        \<and> caught w = Some (Exception ''engine fault'')
        \<and> last (posted w) = ''Error: engine fault''
        \<and> is_terminal (last (posted w))
        \<and> (\<forall>m \<in> set (butlast (posted w)). \<not> is_terminal m)
        \<and> calls w = [LoadCall ''large'' ''cpu'', TranscribeCall ''a.mp4'' (Some ''German'') False]"
    by blast
  with job_starts_chosen nf n3 fail_state(2) d worker_loading h2 h3 e f
  show ?thesis by blast
qed

lemma segment_cpu:
  assumes "segment e s w = (ms, r, v)" and "device w = ''cpu''" and "pc w \<noteq> Entered"
  shows "device v = ''cpu'' \<and> pc v \<noteq> Entered \<and> (\<exists>rest. calls v = calls w @ rest \<and> list_all on_cpu rest)"
  using assms
  by (auto simp add: segment_def Let_def on_cpu_def split: pc.splits sum.splits)

lemma do_transcription_cpu:
  assumes "do_transcription e s w = (msgs, w')" and "device w = ''cpu''" and "pc w \<noteq> Entered"
  shows "device w' = ''cpu'' \<and> pc w' \<noteq> Entered \<and> (\<exists>rest. calls w' = calls w @ rest \<and> list_all on_cpu rest)"
proof -
  obtain ms r v where seg: "segment e s w = (ms, r, v)" by (cases "segment e s w") auto
  from segment_cpu [OF seg assms(2,3)] seg assms(1) show ?thesis
    by (cases r) (auto simp add: do_transcription_def)
qed

lemma cpu_inv_step:
  assumes "cpu_inv k s" and "\<not> is_start ev"
  shows "cpu_inv k (step ev s)"
proof (cases ev)
  case (Edit f v)
  with assms show ?thesis by (cases f) (auto simp add: cpu_inv_def split: option.splits)
next
  case (Start e)
  with assms show ?thesis by simp
next
  case Tick
  with assms show ?thesis
    by (auto simp add: cpu_inv_def tick_def progress_tick_def Let_def split: option.splits)
next
  case Update
  with assms show ?thesis
    by (auto simp add: cpu_inv_def update_def split: list.splits option.splits)
next
  case (Work e)
  from assms obtain w rest where w: "worker_thread s = Some w" and d: "device w = ''cpu''"
    and p: "pc w \<noteq> Entered" and c: "calls w = k @ rest" and a: "list_all on_cpu rest"
    by (auto simp add: cpu_inv_def split: option.splits)
  obtain msgs w' where dt: "do_transcription e s w = (msgs, w')"
    by (cases "do_transcription e s w") auto
  from do_transcription_cpu [OF dt d p] obtain more where "device w' = ''cpu''"
    "pc w' \<noteq> Entered" "calls w' = calls w @ more" "list_all on_cpu more"
    by blast
  with c a have "device w' = ''cpu'' \<and> pc w' \<noteq> Entered \<and> calls w' = k @ (rest @ more)
      \<and> list_all on_cpu (rest @ more)"
    by simp
  then show ?thesis
    unfolding Work by (simp add: cpu_inv_def work_def w dt fold_set_status)
qed

lemma cpu_inv_run:
  assumes "cpu_inv k s" and "\<forall>ev \<in> set evs. \<not> is_start ev"
  shows "cpu_inv k (run evs s)"
  using assms(1)
proof (rule run_invariant)
  fix ev t
  assume "ev \<in> set evs" and "cpu_inv k t"
  with assms(2) show "cpu_inv k (step ev t)" by (simp add: cpu_inv_step)
qed

text \<open>
  Claim C7. When the worker begins with the device field at \<open>cuda\<close> and CUDA is not
  available, its first step posts \<open>CUDA not available, using CPU.\<close> and then the loading
  message, in this order, loads the model on \<open>cpu\<close>, catches no exception and goes on to the
  model loading; and whatever follows in the job, the device stays \<open>cpu\<close> and every later
  call is made for it (the transcription in full precision).
\<close>

theorem cuda_downgrade:
  assumes "worker_thread s = Some w" and "pc w = Entered"
    and "device_var s = ''cuda''" and "cuda_is_available e = Inr False"
    and "set_num_threads e = Inr ()"
    and "\<forall>ev \<in> set evs. \<not> is_start ev"
  shows "\<exists>w1 w2 rest.
       worker_thread (work e s) = Some w1
     \<and> device w1 = ''cpu'' \<and> pc w1 = InLoadModel \<and> caught w1 = caught w
     \<and> posted w1 = posted w @ [''CUDA not available, using CPU.'',
          ''Loading model '' @ [CHR 0x27] @ model_var s @ [CHR 0x27] @ '' ...'']
     \<and> after_updates (work e s) = after_updates s @ [''CUDA not available, using CPU.'',
          ''Loading model '' @ [CHR 0x27] @ model_var s @ [CHR 0x27] @ '' ...'']
     \<and> calls w1 = calls w @ [LoadCall (model_var s) ''cpu'']
     \<and> worker_thread (run evs (work e s)) = Some w2
     \<and> device w2 = ''cpu''
     \<and> calls w2 = calls w @ rest \<and> list_all on_cpu rest"
proof -
  let ?w1 = "w\<lparr> pc := InLoadModel, device := ''cpu'', model_name := model_var s,
      posted := posted w @ [msg_cuda, msg_loading (model_var s)],
      calls := calls w @ [LoadCall (model_var s) ''cpu''] \<rparr>"
  have step1: "work e s = s\<lparr> worker_thread := Some ?w1,
      after_updates := after_updates s @ [msg_cuda, msg_loading (model_var s)] \<rparr>"
    using assms(1-5) by (rule work_Entered_downgrade)
  have first: "worker_thread (work e s) = Some ?w1
     \<and> device ?w1 = ''cpu'' \<and> pc ?w1 = InLoadModel \<and> caught ?w1 = caught w
     \<and> posted ?w1 = posted w @ [''CUDA not available, using CPU.'',
          ''Loading model '' @ [CHR 0x27] @ model_var s @ [CHR 0x27] @ '' ...'']
     \<and> after_updates (work e s) = after_updates s @ [''CUDA not available, using CPU.'',
          ''Loading model '' @ [CHR 0x27] @ model_var s @ [CHR 0x27] @ '' ...'']
     \<and> calls ?w1 = calls w @ [LoadCall (model_var s) ''cpu'']"
    by (simp add: step1 msg_cuda_def msg_loading_def)
  have "cpu_inv (calls w) (work e s)"
    by (simp add: step1 cpu_inv_def on_cpu_def)
  from cpu_inv_run [OF this assms(6)]
  obtain w2 rest where "worker_thread (run evs (work e s)) = Some w2" "device w2 = ''cpu''"
    "calls w2 = calls w @ rest" "list_all on_cpu rest"
    by (auto simp add: cpu_inv_def split: option.splits)
  with first show ?thesis by blast
qed

theorem cuda_downgrade_witness:
  "worker_thread running = Some new_thread \<and> pc new_thread = Entered
   \<and> device_var running = ''cuda'' \<and> cuda_is_available example_env = Inr False
   \<and> set_num_threads example_env = Inr ()
   \<and> filter is_start wait_events = []
   \<and> (\<exists>w1 w2. worker_thread (work example_env running) = Some w1
        \<and> device w1 = ''cpu'' \<and> pc w1 = InLoadModel \<and> caught w1 = None
        \<and> posted w1 = [''CUDA not available, using CPU.'',
             ''Loading model '' @ [CHR 0x27] @ ''large'' @ [CHR 0x27] @ '' ...'']
        \<and> calls w1 = [LoadCall ''large'' ''cpu'']
        \<and> worker_thread (run wait_events (work example_env running)) = Some w2
        \<and> pc w2 = Returned \<and> caught w2 = None
        \<and> calls w2 = [LoadCall ''large'' ''cpu'',
             TranscribeCall ''a.mp4'' (Some ''German'') False,
             WriteCall ''transcript_output.txt'' ''text of a.mp4''])"
proof -
  have h1: "worker_thread running = Some new_thread" by (simp add: running_eq)
  have h2: "pc new_thread = Entered" by (simp add: new_thread_def)
  have h3: "device_var running = ''cuda''" by (simp add: running_eq chosen_def init_def)
  have h4: "cuda_is_available example_env = Inr False" by (simp add: example_env_def)
  have h5: "set_num_threads example_env = Inr ()" by (simp add: example_env_def)
  have h6: "\<forall>ev \<in> set wait_events. \<not> is_start ev" by (simp add: wait_events_def)
  from cuda_downgrade [OF h1 h2 h3 h4 h5 h6]
  obtain w1 w2 rest where w1: "worker_thread (work example_env running) = Some w1"
    and a: "device w1 = ''cpu''" "pc w1 = InLoadModel" "caught w1 = caught new_thread"
      "posted w1 = posted new_thread @ [''CUDA not available, using CPU.'',
          ''Loading model '' @ [CHR 0x27] @ model_var running @ [CHR 0x27] @ '' ...'']"
      "calls w1 = calls new_thread @ [LoadCall (model_var running) ''cpu'']"
    and w2: "worker_thread (run wait_events (work example_env running)) = Some w2"
    and r: "calls w2 = calls new_thread @ rest"
    by blast
  have m: "model_var running = ''large''" by (simp add: running_eq chosen_def init_def)
  from a m have b: "caught w1 = None"
    "posted w1 = [''CUDA not available, using CPU.'',
       ''Loading model '' @ [CHR 0x27] @ ''large'' @ [CHR 0x27] @ '' ...'']"
    "calls w1 = [LoadCall ''large'' ''cpu'']"
    by (simp_all add: new_thread_def)
  have "map_option (\<lambda>w. (pc w, caught w, calls w))
      (worker_thread (run wait_events (work example_env running))) =
      Some (Returned, None, [LoadCall ''large'' ''cpu'',
             TranscribeCall ''a.mp4'' (Some ''German'') False,
             WriteCall ''transcript_output.txt'' ''text of a.mp4''])"
    unfolding wait_events_def by (simp add: eval_defs)
  with w2 have c: "pc w2 = Returned" "caught w2 = None"
    "calls w2 = [LoadCall ''large'' ''cpu'',
             TranscribeCall ''a.mp4'' (Some ''German'') False,
             WriteCall ''transcript_output.txt'' ''text of a.mp4'']"
    by simp_all
  have h7: "filter is_start wait_events = []" by (simp add: wait_events_def)
  from h1 h2 h3 h4 h5 h7 w1 a(1,2) b w2 c show ?thesis by blast
qed

lemma call_from_simps:
  "call_from f (LoadCall n d) =
     (n = model_var f \<and> (d = device_var f \<or> device_var f = ''cuda'' \<and> d = ''cpu''))"
  "call_from f (TranscribeCall p l fp16) =
     (p = strip (input_var f) \<and>
      l = (if lang_var f = ''Auto'' then None else Some (lang_var f)) \<and>
      (fp16 \<longrightarrow> device_var f = ''cuda''))"
  "call_from f (WriteCall p t) = (p = strip (output_var f))"
  by (simp_all add: call_from_def)

lemma begin_load_fields:
  assumes "begin_load e s w dev msgs = (ms, r, v)"
    and "dev = device_var s \<or> device_var s = ''cuda'' \<and> dev = ''cpu''"
    and "\<forall>c \<in> set (calls w). call_from s c"
  shows "device v = dev \<and> (\<forall>c \<in> set (calls v). call_from s c)"
  using assms
  by (auto simp add: begin_load_def Let_def call_from_simps split: sum.splits)

lemma segment_fields:
  assumes seg: "segment e s w = (ms, r, v)"
    and dev: "pc w \<noteq> Entered \<longrightarrow>
       device w = device_var s \<or> device_var s = ''cuda'' \<and> device w = ''cpu''"
    and old: "\<forall>c \<in> set (calls w). call_from s c"
  shows "((pc v \<noteq> Entered \<or> r \<noteq> None) \<longrightarrow>
            device v = device_var s \<or> device_var s = ''cuda'' \<and> device v = ''cpu'')
       \<and> (\<forall>c \<in> set (calls v). call_from s c)"
proof (cases "pc w")
  case Entered
  with seg old show ?thesis
    by (auto simp add: segment_def Let_def call_from_simps
        split: sum.splits if_splits dest!: begin_load_fields)
next
  case InLoadModel
  with seg dev old show ?thesis
    by (auto simp add: segment_def Let_def call_from_simps split: sum.splits)
next
  case InTranscribe
  with seg dev old show ?thesis
    by (auto simp add: segment_def Let_def call_from_simps split: sum.splits)
next
  case Returned
  with seg dev old show ?thesis
    by (auto simp add: segment_def)
qed

lemma call_from_same_fields: "same_fields s f \<Longrightarrow> call_from s c = call_from f c"
  by (cases c) (simp_all add: same_fields_def call_from_simps)

lemma do_transcription_fields:
  assumes d: "do_transcription e s w = (msgs, w')"
    and dev: "pc w \<noteq> Entered \<longrightarrow>
       device w = device_var s \<or> device_var s = ''cuda'' \<and> device w = ''cpu''"
    and old: "\<forall>c \<in> set (calls w). call_from s c"
  shows "(pc w' \<noteq> Entered \<longrightarrow>
            device w' = device_var s \<or> device_var s = ''cuda'' \<and> device w' = ''cpu'')
       \<and> (\<forall>c \<in> set (calls w'). call_from s c)"
proof -
  obtain ms r v where seg: "segment e s w = (ms, r, v)" by (cases "segment e s w") auto
  from segment_fields [OF seg dev old] seg d show ?thesis
    by (cases r) (auto simp add: do_transcription_def)
qed

lemma fields_inv_work:
  assumes "fields_inv f s"
  shows "fields_inv f (work e s)"
proof (cases "worker_thread s")
  case None
  with assms show ?thesis by (simp add: work_def)
next
  case (Some w)
  from assms have sf: "same_fields s f" by (simp add: fields_inv_def)
  then have eq: "device_var s = device_var f" by (simp add: same_fields_def)
  from assms Some sf
  have dev: "pc w \<noteq> Entered \<longrightarrow>
       device w = device_var s \<or> device_var s = ''cuda'' \<and> device w = ''cpu''"
    and old: "\<forall>c \<in> set (calls w). call_from s c"
    by (simp_all add: fields_inv_def eq call_from_same_fields)
  obtain msgs w' where d: "do_transcription e s w = (msgs, w')"
    by (cases "do_transcription e s w") auto
  from do_transcription_fields [OF d dev old] sf
  have "(pc w' \<noteq> Entered \<longrightarrow>
            device w' = device_var f \<or> device_var f = ''cuda'' \<and> device w' = ''cpu'')
       \<and> (\<forall>c \<in> set (calls w'). call_from f c)"
    by (simp add: eq call_from_same_fields)
  with sf show ?thesis
    by (simp add: fields_inv_def work_def Some d fold_set_status same_fields_def)
qed

lemma fields_inv_step:
  assumes "fields_inv f s" and "\<not> is_edit ev"
  shows "fields_inv f (step ev s)"
proof (cases ev)
  case (Edit g v)
  with assms show ?thesis by simp
next
  case (Start e)
  with assms show ?thesis
    by (auto simp add: fields_inv_def same_fields_def start_transcription_def showerror_def
        showinfo_def Let_def new_thread_def split: option.splits)
next
  case Tick
  with assms show ?thesis
    by (auto simp add: fields_inv_def same_fields_def tick_def progress_tick_def Let_def
        split: option.splits)
next
  case Update
  with assms show ?thesis
    by (auto simp add: fields_inv_def same_fields_def update_def split: list.splits option.splits)
next
  case (Work e)
  with assms show ?thesis by (simp add: fields_inv_work)
qed

lemma fields_inv_run:
  assumes "fields_inv f s" and "\<forall>ev \<in> set evs. \<not> is_edit ev"
  shows "fields_inv f (run evs s)"
  using assms(1)
proof (rule run_invariant)
  fix ev t
  assume "ev \<in> set evs" and "fields_inv f t"
  with assms(2) show "fields_inv f (step ev t)" by (simp add: fields_inv_step)
qed

lemma fields_inv_start:
  assumes "job_starts e s"
  shows "fields_inv s (start_transcription e s)"
  using assms
  by (simp add: start_when_job_starts fields_inv_def same_fields_def new_thread_def)

lemma worker_thread_step:
  assumes "worker_thread s \<noteq> None"
  shows "worker_thread (step ev s) \<noteq> None"
proof (cases ev)
  case (Edit g v)
  with assms show ?thesis by (cases g) simp_all
next
  case (Start e)
  with assms show ?thesis
    by (simp add: start_transcription_def showerror_def showinfo_def Let_def)
next
  case Tick
  with assms show ?thesis by (simp add: tick_def progress_tick_def Let_def)
next
  case Update
  with assms show ?thesis by (simp add: update_def split: list.splits)
next
  case (Work e)
  with assms show ?thesis by (simp add: work_frame)
qed

lemma worker_thread_run: "worker_thread s \<noteq> None \<Longrightarrow> worker_thread (run evs s) \<noteq> None"
  by (rule run_invariant) (simp_all add: worker_thread_step)

text \<open>
  Claim C1, as stated, fails: the worker reads the form fields when it needs them, not when
  the job starts. Two jobs start from the same window on the same machine; in the second the
  user changes the input and the output field while the model loads, and the engine then
  transcribes the other file into the other output.
\<close>

theorem job_reads_fields_counterexample:
  "job_starts example_env chosen
   \<and> map_option calls (worker_thread
        (run [Work example_env, Work example_env, Work example_env]
           (start_transcription example_env chosen))) =
      Some [LoadCall ''large'' ''cpu'', TranscribeCall ''a.mp4'' (Some ''German'') False,
            WriteCall ''transcript_output.txt'' ''text of a.mp4'']
   \<and> map_option calls (worker_thread
        (run edited_events (start_transcription example_env chosen))) =
      Some [LoadCall ''large'' ''cpu'', TranscribeCall ''b.mp4'' (Some ''German'') False,
            WriteCall ''other.txt'' ''text of b.mp4'']"
  using job_starts_chosen
  unfolding running_def [symmetric] edited_events_def
  by (simp add: eval_defs)

text \<open>
  Claim C1, amended. If no form field is changed after the job has started, every call of
  the job has its arguments from the form fields as they were at the start. In general each
  argument is the value its field has when the worker reads it: the model and the device
  when the worker begins, the input path and the language once the model is loaded, the
  output path once the transcription has returned.
\<close>

theorem job_reads_fields:
  "(job_starts e0 s0 \<longrightarrow> (\<forall>ev \<in> set evs. \<not> is_edit ev) \<longrightarrow>
      (\<exists>w. worker_thread (run evs (start_transcription e0 s0)) = Some w
          \<and> (\<forall>c \<in> set (calls w). call_from s0 c)))
   \<and> (worker_thread s = Some w \<longrightarrow> pc w = Entered \<longrightarrow> set_num_threads e = Inr () \<longrightarrow>
        (device_var s = ''cuda'' \<longrightarrow> cuda_is_available e = Inr True) \<longrightarrow>
        map_option calls (worker_thread (work e s)) =
          Some (calls w @ [LoadCall (model_var s) (device_var s)]))
   \<and> (worker_thread s = Some w \<longrightarrow> pc w = InLoadModel \<longrightarrow>
        load_model e (model_name w) (device w) = Inr () \<longrightarrow>
        map_option calls (worker_thread (work e s)) =
          Some (calls w @ [TranscribeCall (strip (input_var s))
             (if lang_var s = ''Auto'' then None else Some (lang_var s)) (device w = ''cuda'')]))
   \<and> (worker_thread s = Some w \<longrightarrow> pc w = InTranscribe \<longrightarrow>
        transcribe e (input_path w) (language w) (device w = ''cuda'') = Inr text \<longrightarrow>
        write_text e (strip (output_var s)) text = Inr () \<longrightarrow>
        map_option calls (worker_thread (work e s)) =
          Some (calls w @ [WriteCall (strip (output_var s)) text]))"
proof (intro conjI impI)
  assume j: "job_starts e0 s0" and ne: "\<forall>ev \<in> set evs. \<not> is_edit ev"
  let ?s = "run evs (start_transcription e0 s0)"
  from fields_inv_run [OF fields_inv_start [OF j] ne] have inv: "fields_inv s0 ?s" .
  from j have "worker_thread (start_transcription e0 s0) \<noteq> None"
    by (simp add: start_when_job_starts)
  then have "worker_thread ?s \<noteq> None" by (rule worker_thread_run)
  then obtain w where w: "worker_thread ?s = Some w" by blast
  with inv have "\<forall>c \<in> set (calls w). call_from s0 c" by (simp add: fields_inv_def)
  with w show "\<exists>w. worker_thread ?s = Some w \<and> (\<forall>c \<in> set (calls w). call_from s0 c)"
    by blast
next
  assume "worker_thread s = Some w" "pc w = Entered" "set_num_threads e = Inr ()"
    "device_var s = ''cuda'' \<longrightarrow> cuda_is_available e = Inr True"
  then show "map_option calls (worker_thread (work e s)) =
      Some (calls w @ [LoadCall (model_var s) (device_var s)])"
    by (simp add: work_Entered)
next
  assume "worker_thread s = Some w" "pc w = InLoadModel"
    "load_model e (model_name w) (device w) = Inr ()"
  then show "map_option calls (worker_thread (work e s)) =
      Some (calls w @ [TranscribeCall (strip (input_var s))
         (if lang_var s = ''Auto'' then None else Some (lang_var s)) (device w = ''cuda'')])"
    by (simp add: work_InLoadModel)
next
  assume "worker_thread s = Some w" "pc w = InTranscribe"
    "transcribe e (input_path w) (language w) (device w = ''cuda'') = Inr text"
    "write_text e (strip (output_var s)) text = Inr ()"
  then show "map_option calls (worker_thread (work e s)) =
      Some (calls w @ [WriteCall (strip (output_var s)) text])"
    by (simp add: work_InTranscribe)
qed

lemma quiet_calls:
  "map_option calls (worker_thread (run quiet_events (start_transcription example_env chosen))) =
     Some [LoadCall ''large'' ''cpu'', TranscribeCall ''a.mp4'' (Some ''German'') False,
           WriteCall ''transcript_output.txt'' ''text of a.mp4'']"
  unfolding running_def [symmetric] quiet_events_def
  by (simp add: eval_defs start_defs)

lemma worker_loading_edited: "worker_thread loading_edited = Some loading"
  by (simp add: loading_edited_def loading_def eval_defs)

lemma worker_transcribing_edited: "worker_thread transcribing_edited = Some transcribing"
  by (simp add: transcribing_edited_def transcribing_def loading_def eval_defs)

theorem job_reads_fields_witness:
  "job_starts example_env chosen \<and> filter is_edit quiet_events = []
   \<and> (\<exists>w. worker_thread (run quiet_events (start_transcription example_env chosen)) = Some w
        \<and> (\<forall>c \<in> set (calls w). call_from chosen c)
        \<and> calls w = [LoadCall ''large'' ''cpu'',
             TranscribeCall ''a.mp4'' (Some ''German'') False,
             WriteCall ''transcript_output.txt'' ''text of a.mp4''])
   \<and> worker_thread cpu_chosen = Some new_thread \<and> pc new_thread = Entered
   \<and> set_num_threads example_env = Inr () \<and> device_var cpu_chosen \<noteq> ''cuda''
   \<and> map_option calls (worker_thread (work example_env cpu_chosen)) =
        Some [LoadCall ''large'' ''cpu'']
   \<and> worker_thread loading_edited = Some loading \<and> pc loading = InLoadModel
   \<and> load_model example_env (model_name loading) (device loading) = Inr ()
   \<and> map_option calls (worker_thread (work example_env loading_edited)) =
        Some [LoadCall ''large'' ''cpu'', TranscribeCall ''b.mp4'' (Some ''German'') False]
   \<and> worker_thread transcribing_edited = Some transcribing \<and> pc transcribing = InTranscribe
   \<and> transcribe example_env (input_path transcribing) (language transcribing)
        (device transcribing = ''cuda'') = Inr ''text of a.mp4''
   \<and> write_text example_env (strip (output_var transcribing_edited)) ''text of a.mp4'' = Inr ()
   \<and> map_option calls (worker_thread (work example_env transcribing_edited)) =
        Some [LoadCall ''large'' ''cpu'', TranscribeCall ''a.mp4'' (Some ''German'') False,
              WriteCall ''other.txt'' ''text of a.mp4'']"
proof -
  have ne: "\<forall>ev \<in> set quiet_events. \<not> is_edit ev" by (simp add: quiet_events_def)
  from job_reads_fields [of example_env chosen quiet_events] job_starts_chosen ne
  obtain w where w: "worker_thread (run quiet_events (start_transcription example_env chosen)) = Some w"
    and c: "\<forall>c \<in> set (calls w). call_from chosen c"
    by blast
  from w quiet_calls have k: "calls w = [LoadCall ''large'' ''cpu'',
             TranscribeCall ''a.mp4'' (Some ''German'') False,
             WriteCall ''transcript_output.txt'' ''text of a.mp4'']"
    by simp
  have b1: "worker_thread cpu_chosen = Some new_thread"
    by (simp add: cpu_chosen_def running_eq)
  have b2: "pc new_thread = Entered" "calls new_thread = []" by (simp_all add: new_thread_def)
  have b3: "set_num_threads example_env = Inr ()" by (simp add: example_env_def)
  have b4: "device_var cpu_chosen \<noteq> ''cuda''" by (simp add: cpu_chosen_def)
  have b5: "model_var cpu_chosen = ''large''" "device_var cpu_chosen = ''cpu''"
    by (simp_all add: cpu_chosen_def running_eq chosen_def init_def)
  from job_reads_fields [of example_env chosen quiet_events cpu_chosen new_thread example_env]
    b1 b2 b3 b4 b5
  have b: "map_option calls (worker_thread (work example_env cpu_chosen)) =
      Some [LoadCall ''large'' ''cpu'']"
    by simp
  have c2: "pc loading = InLoadModel" "device loading = ''cpu''"
    "calls loading = [LoadCall ''large'' ''cpu'']"
    by (simp_all add: loading_def)
  have c3: "load_model example_env (model_name loading) (device loading) = Inr ()"
    by (simp add: example_env_def)
  have c4: "strip (input_var loading_edited) = ''b.mp4''" "lang_var loading_edited = ''German''"
    by (simp_all add: loading_edited_def eval_defs)
  from job_reads_fields [of example_env chosen quiet_events loading_edited loading example_env]
    worker_loading_edited c2 c3 c4
  have cc: "map_option calls (worker_thread (work example_env loading_edited)) =
      Some [LoadCall ''large'' ''cpu'', TranscribeCall ''b.mp4'' (Some ''German'') False]"
    by simp
  have d2: "pc transcribing = InTranscribe"
    "calls transcribing = [LoadCall ''large'' ''cpu'',
       TranscribeCall ''a.mp4'' (Some ''German'') False]"
    by (simp_all add: transcribing_def)
  have d3: "transcribe example_env (input_path transcribing) (language transcribing)
        (device transcribing = ''cuda'') = Inr ''text of a.mp4''"
    by (simp add: example_env_def transcribing_def)
  have d4: "write_text example_env (strip (output_var transcribing_edited)) ''text of a.mp4''
      = Inr ()"
    by (simp add: example_env_def)
  have d5: "strip (output_var transcribing_edited) = ''other.txt''"
    by (simp add: transcribing_edited_def strip_def isspace_def)
  from job_reads_fields [of example_env chosen quiet_events transcribing_edited transcribing
      example_env "''text of a.mp4''"]
    worker_transcribing_edited d2 d3 d4 d5
  have dd: "map_option calls (worker_thread (work example_env transcribing_edited)) =
      Some [LoadCall ''large'' ''cpu'', TranscribeCall ''a.mp4'' (Some ''German'') False,
            WriteCall ''other.txt'' ''text of a.mp4'']"
    by simp
  have nf: "filter is_edit quiet_events = []" by (simp add: quiet_events_def)
  from job_starts_chosen nf w c k b1 b2(1) b3 b4 b worker_loading_edited c2(1) c3 cc
    worker_transcribing_edited d2(1) d3 d4 dd
  show ?thesis by blast
qed

end
